(* ===== verification/Go_Prelude.thy ===== *)
theory Go_Prelude
  imports Main "HOL-Library.Word" "HOL-Library.Signed_Division"
begin

text \<open>
  The vocabulary the component theories share: Go's fixed-width integers as words, byte
  slices as lists of bytes, strings as the byte sequences Go makes of them, the
  big-endian codecs of \<^verbatim>\<open>encoding/binary\<close>, and the list and word lemmas the proofs of
  several components use. The collections declared here are filled by the components:
  \<open>wire_defs\<close> with the unfolding rules of the wire messages, \<open>io_simps\<close> with the rules that
  execute an interaction program, \<open>step_defs\<close> with the steps of the two step tables.
\<close>

named_theorems io_simps "rules that execute interaction programs symbolically"
named_theorems wire_defs "definitions of the messages on the wire"
named_theorems step_defs "definitions of the steps of the two transfer state machines"

section \<open>Machine types\<close>

type_synonym byte = "8 word"
type_synonym u32 = "32 word"
type_synonym u64 = "64 word"
type_synonym bytes = "byte list"

text \<open>Division of \<^verbatim>\<open>int64\<close> values: two's complement, truncating towards zero.\<close>

definition int64_div :: "u64 \<Rightarrow> u64 \<Rightarrow> u64" where
  "int64_div a b = word_of_int (sint a sdiv sint b)"

section \<open>Strings\<close>

text \<open>
  A Go string is a sequence of bytes, and so is a HOL \<^typ>\<open>string\<close>: a \<^typ>\<open>char\<close> is one of
  256 values. The conversions \<^verbatim>\<open>[]byte(s)\<close> and \<^verbatim>\<open>string(b)\<close> copy the bytes.
\<close>

definition str_bytes :: "string \<Rightarrow> bytes" where
  "str_bytes s = map (\<lambda>c. word_of_nat (of_char c)) s"

definition bytes_str :: "bytes \<Rightarrow> string" where
  "bytes_str b = map (\<lambda>w. char_of (unat w)) b"

lemma length_str_bytes [simp]: "length (str_bytes s) = length s"
  by (simp add: str_bytes_def)

lemma length_bytes_str [simp]: "length (bytes_str b) = length b"
  by (simp add: bytes_str_def)

lemma unat_of_char_word: "unat (word_of_nat (of_char c) :: byte) = of_char c"
  by (simp add: unat_of_nat take_bit_nat_eq_self)

lemma bytes_str_str_bytes [simp]: "bytes_str (str_bytes s) = s"
  by (induction s) (simp_all add: bytes_str_def str_bytes_def unat_of_char_word)

lemma byte_less_256 [simp]: "unat (w :: byte) < 256"
  using unsigned_less [of w, where ?'a = nat] by simp

lemma str_bytes_bytes_str [simp]: "str_bytes (bytes_str b) = b"
  by (induction b) (simp_all add: bytes_str_def str_bytes_def)

section \<open>Big-endian integers\<close>

text \<open>
  \<^verbatim>\<open>binary.BigEndian.PutUint32\<close>, \<^verbatim>\<open>PutUint64\<close> and \<^verbatim>\<open>Uint32\<close>. \<^verbatim>\<open>Uint32\<close> reads the first four
  bytes of its argument; the program calls it on four-byte buffers only (a shorter one
  would be an index panic in Go, and no call site can produce it).
\<close>

definition PutUint32 :: "u32 \<Rightarrow> bytes" where
  "PutUint32 v =
     [ucast (drop_bit 24 v), ucast (drop_bit 16 v), ucast (drop_bit 8 v), ucast v]"

definition PutUint64 :: "u64 \<Rightarrow> bytes" where
  "PutUint64 v = map (\<lambda>i. ucast (drop_bit (8 * i) v)) (rev [0..<8])"

fun Uint32 :: "bytes \<Rightarrow> u32" where
  "Uint32 (b0 # b1 # b2 # b3 # _) =
     or (ucast b3) (or (push_bit 8 (ucast b2))
       (or (push_bit 16 (ucast b1)) (push_bit 24 (ucast b0))))"
| "Uint32 _ = 0"

lemma length_PutUint32 [simp]: "length (PutUint32 v) = 4"
  by (simp add: PutUint32_def)

lemma length_PutUint64 [simp]: "length (PutUint64 v) = 8"
  by (simp add: PutUint64_def)

lemma Uint32_PutUint32 [simp]: "Uint32 (PutUint32 v) = v"
proof (rule bit_word_eqI)
  fix n
  assume n: "n < LENGTH(32)"
  consider "n < 8" | "8 \<le> n" "n < 16" | "16 \<le> n" "n < 24" | "24 \<le> n" "n < 32"
    using n by fastforce
  then show "bit (Uint32 (PutUint32 v)) n = bit v n"
    by cases (use n in \<open>auto simp: PutUint32_def bit_simps dest: bit_imp_le_length\<close>)
qed

lemma PutUint32_Uint32: "length b = 4 \<Longrightarrow> PutUint32 (Uint32 b) = b"
proof -
  assume "length b = 4"
  then obtain b0 b1 b2 b3 where b: "b = [b0, b1, b2, b3]"
    by (auto simp: length_Suc_conv numeral_eq_Suc)
  let ?v = "Uint32 [b0, b1, b2, b3]"
  have "ucast (drop_bit 24 ?v) = b0"
    by (rule bit_word_eqI) (auto simp: bit_simps dest: bit_imp_le_length)
  moreover have "ucast (drop_bit 16 ?v) = b1"
    by (rule bit_word_eqI) (auto simp: bit_simps dest: bit_imp_le_length)
  moreover have "ucast (drop_bit 8 ?v) = b2"
    by (rule bit_word_eqI) (auto simp: bit_simps dest: bit_imp_le_length)
  moreover have "ucast ?v = b3"
    by (rule bit_word_eqI) (auto simp: bit_simps dest: bit_imp_le_length)
  ultimately show ?thesis by (simp add: PutUint32_def b)
qed

lemma PutUint32_inject [simp]: "PutUint32 v = PutUint32 w \<longleftrightarrow> v = w"
  by (metis Uint32_PutUint32)

section \<open>Counting in 32 bits\<close>

lemma u32_less: "unat (v :: u32) < 2 ^ 32"
  using unsigned_less [of v, where ?'a = nat] by simp

lemma unat_of_nat_u32: "n < 2 ^ 32 \<Longrightarrow> unat (word_of_nat n :: u32) = n"
  by (simp add: unat_of_nat take_bit_nat_eq_self)

text \<open>The index \<open>i\<close> of a loop that stops at \<open>n - 1\<close>.\<close>

lemma last_chunk_nat:
  assumes "i < (n :: u32)"
  shows "n \<noteq> 0" and "i = n - 1 \<longleftrightarrow> unat n = Suc (unat i)"
    and "i \<noteq> n - 1 \<Longrightarrow> i + 1 < n" and "unat (i + 1) = Suc (unat i)"
proof -
  have lt: "unat i < unat n" using assms by (simp add: word_less_nat_alt)
  then show "n \<noteq> 0" by auto
  have "unat n < 2 ^ 32" by (rule u32_less)
  with lt show Suc: "unat (i + 1) = Suc (unat i)"
    by (simp add: unat_word_ariths)
  have "i = n - 1 \<longleftrightarrow> n = i + 1" by (auto simp: algebra_simps)
  then show eq: "i = n - 1 \<longleftrightarrow> unat n = Suc (unat i)"
    by (simp add: word_unat_eq_iff [of n] Suc)
  show "i + 1 < n" if "i \<noteq> n - 1"
    using that eq lt Suc by (auto simp: word_less_nat_alt)
qed

section \<open>Functional refinement\<close>

text \<open>
  A deterministic machine that reads inputs refines an abstract one when one step on the
  representation of an abstract state is the representation of the abstract step; then so is every
  run.
\<close>

locale functional_refinement =
  fixes conc :: "'c \<Rightarrow> 'i \<Rightarrow> 'c"
    and abst :: "'a \<Rightarrow> 'o \<Rightarrow> 'a"
    and obs :: "'i \<Rightarrow> 'o"
    and rep :: "'a \<Rightarrow> 'c"
  assumes step: "conc (rep a) i = rep (abst a (obs i))"
begin

lemma run: "foldl conc (rep a) inputs = rep (foldl abst a (map obs inputs))"
  by (induction inputs arbitrary: a) (simp_all add: step)

end

end
