(* ===== verification/Go_IO.thy ===== *)
theory Go_IO
  imports Go_Prelude
begin

text \<open>
  Go's effects as interaction programs. A function that reads or writes a stream, a file,
  the random source or the clock is a value of type \<open>'a io\<close>: it returns, it stops the
  process (a run-time panic or \<^verbatim>\<open>log.Fatal\<close>), or it makes a request to its environment and
  continues with the reply. The order of the requests is the order of the calls in the
  source, and every error a call may return is a reply the program has to handle.

  Three readings of a program are used in the development: \<open>exec\<close> (below) lets an arbitrary
  environment choose every reply, so that a statement about all its event lists holds for
  every peer, disk and random source; \<open>wph\<close> (below) is the weakest precondition that proves
  such statements; theory \<open>Duplex\<close> connects two programs by byte channels.
\<close>

section \<open>Errors\<close>

text \<open>
  Error values. \<open>Errorf\<close> is \<^verbatim>\<open>fmt.Errorf\<close>: the format string of the source with its
  arguments, \<open>AErr\<close> being the wrapped error of \<^verbatim>\<open>%w\<close>. \<open>SysError\<close> stands for the errors of
  the operating system and of the transport, known by their message only.
\<close>

datatype go_error =
    EOF
  | ErrUnexpectedEOF
  | ErrInvalid
  | SysError string
  | KeySizeError nat
  | GCMAuthError
  | Errorf string "go_arg list"
and go_arg =
    AErr go_error
  | AStr string
  | AU32 u32
  | AByte byte
  | AHex bytes
  | AStrs "string list"
  | ATime int

type_synonym 'a go_result = "go_error + 'a"

section \<open>Values of the libp2p library\<close>

text \<open>
  The library is not part of the program; its values are known by what the program sees of them: a
  multiaddress and a peer ID by their text (what \<^verbatim>\<open>%s\<close> prints), a private key by its raw bytes, a
  reservation by its expiration time, a host option by the call that makes it. Times and durations
  are in nanoseconds.
\<close>

type_synonym Multiaddr = string
type_synonym peer_ID = string
type_synonym PrivKey = bytes

record AddrInfo =
  ai_ID :: peer_ID
  ai_Addrs :: "Multiaddr list"

datatype host_option =
    Identity PrivKey
  | NATPortMap
  | EnableRelay
  | Transport string
  | EnableHolePunching
  | ListenAddrStrings "string list"
  | NoListenAddrs
  | EnableRelayService_WithInfiniteLimits
  | ForceReachabilityPublic
  | DisableRelay

text \<open>
  The goroutines the program starts (theory \<open>P2P\<close> says what they do): the renewal of a reservation,
  the watcher of a peer (with the time-out of its context, if any, and its own) and the log of
  identify events.
\<close>

datatype goroutine =
    GoKeepReservationAlive AddrInfo int
  | GoWatch "int option" peer_ID int
  | GoIdentifyLog

section \<open>Requests, replies and programs\<close>

text \<open>
  The calls that leave the program. \<open>QRead n\<close> is \<^verbatim>\<open>io.ReadFull\<close> on the stream with a buffer
  of \<open>n > 0\<close> bytes, \<open>QWrite\<close>, \<open>QClose\<close> and \<open>QReset\<close> are the stream's methods, \<open>QRand\<close> fills
  a buffer from \<^verbatim>\<open>crypto/rand\<close>, the \<open>QF\<close> requests are \<^verbatim>\<open>os.File\<close> operations (a file is
  known by the path it was opened with) and \<open>QNow\<close> is \<^verbatim>\<open>time.Now().Unix()\<close>. The other requests are
  those of the set-up code: whole files, the environment, output, sleeping, the wait for a signal,
  the start of a goroutine, and the calls of the libp2p library on the one host of the process. A
  context is not modelled; when it ends a call, that call replies with an error.
\<close>

datatype req =
    QRead nat
  | QWrite bytes
  | QClose
  | QReset
  | QRand nat
  | QFOpen string
  | QFCreate string
  | QMkdirAll string
  | QFStat string
  | QFReadAt string nat int
  | QFWrite string bytes
  | QFClose string
  | QNow
  | QReadFile string
  | QWriteFile string bytes nat
  | QGetenv string
  | QPrintf string "go_arg list"
  | QPrintln "go_arg list"
  | QLogf string "go_arg list"
  | QLogln "go_arg list"
  | QSleep int
  | QSignal
  | QGo goroutine
  | QGenerateKeyPair
  | QHostNew "host_option list"
  | QHostClose
  | QHostAddrs
  | QSubscribe
  | QConnect AddrInfo
  | QReserve AddrInfo
  | QNewStream peer_ID string
  | QSetStreamHandler string
  | QNotify

text \<open>
  A reply: the \<^verbatim>\<open>error\<close> result (if any), the bytes delivered and a number, or a list of names.
\<close>

datatype reply =
    Reply (r_err: "go_error option") (r_bytes: bytes) (r_num: int)
  | Names (r_strs: "string list")
where
  "r_err (Names _) = None"
| "r_bytes (Names _) = []"
| "r_num (Names _) = 0"
| "r_strs (Reply _ _ _) = []"

type_synonym event = "req \<times> reply"

text \<open>
  What the documentation of the calls promises about a reply: \<^verbatim>\<open>io.ReadFull\<close> and the random
  source return an error unless the whole buffer was filled, \<^verbatim>\<open>ReadAt\<close> never delivers more
  than was asked for and returns an error when it delivers less.
\<close>

fun reply_ok :: "req \<Rightarrow> reply \<Rightarrow> bool" where
  "reply_ok (QRead n) r \<longleftrightarrow> (r_err r = None \<longrightarrow> length (r_bytes r) = n)"
| "reply_ok (QRand n) r \<longleftrightarrow> (r_err r = None \<longrightarrow> length (r_bytes r) = n)"
| "reply_ok (QFReadAt p n off) r \<longleftrightarrow>
     length (r_bytes r) \<le> n \<and> (r_err r = None \<longrightarrow> length (r_bytes r) = n)"
| "reply_ok _ r \<longleftrightarrow> True"

text \<open>Output: to standard output, and to the log.\<close>

fun is_output :: "req \<Rightarrow> bool" where
  "is_output (QPrintf _ _) = True"
| "is_output (QPrintln _) = True"
| "is_output (QLogf _ _) = True"
| "is_output (QLogln _) = True"
| "is_output _ = False"

text \<open>
  How a process can stop other than by returning. \<open>Fatal\<close> is \<^verbatim>\<open>log.Fatal\<close> with a message and an error,
  the form all its calls have.
\<close>

datatype halt = Panic string | Fatal string go_error | Exit int

datatype 'a io =
    Ret 'a
  | Halt halt
  | Act req "reply \<Rightarrow> 'a io"

primrec io_bind :: "'a io \<Rightarrow> ('a \<Rightarrow> 'b io) \<Rightarrow> 'b io" where
  "io_bind (Ret x) f = f x"
| "io_bind (Halt h) f = Halt h"
| "io_bind (Act q k) f = Act q (\<lambda>r. io_bind (k r) f)"

text \<open>
  \<open>io_try m onerr f\<close> is the idiom \<^verbatim>\<open>x, err := m; if err != nil { return onerr(err) }; f(x)\<close>.
\<close>

definition io_try :: "'a go_result io \<Rightarrow> (go_error \<Rightarrow> 'b) \<Rightarrow> ('a \<Rightarrow> 'b io) \<Rightarrow> 'b io" where
  "io_try m onerr f =
     io_bind m (\<lambda>r. case r of Inl e \<Rightarrow> Ret (onerr e) | Inr x \<Rightarrow> f x)"

definition reply_bytes :: "reply \<Rightarrow> bytes go_result" where
  "reply_bytes r = (case r_err r of Some e \<Rightarrow> Inl e | None \<Rightarrow> Inr (r_bytes r))"

definition reply_unit :: "reply \<Rightarrow> unit go_result" where
  "reply_unit r = (case r_err r of Some e \<Rightarrow> Inl e | None \<Rightarrow> Inr ())"

subsection \<open>The calls of the standard library\<close>

text \<open>\<^verbatim>\<open>io.ReadFull\<close> with an empty buffer returns at once, without touching the stream.\<close>

definition ReadFull :: "nat \<Rightarrow> bytes go_result io" where
  "ReadFull n = (if n = 0 then Ret (Inr []) else Act (QRead n) (\<lambda>r. Ret (reply_bytes r)))"

definition ConnWrite :: "bytes \<Rightarrow> unit go_result io" where
  "ConnWrite b = Act (QWrite b) (\<lambda>r. Ret (reply_unit r))"

definition ConnClose :: "unit go_result io" where
  "ConnClose = Act QClose (\<lambda>r. Ret (reply_unit r))"

definition ConnReset :: "unit go_result io" where
  "ConnReset = Act QReset (\<lambda>r. Ret (reply_unit r))"

definition RandRead :: "nat \<Rightarrow> bytes go_result io" where
  "RandRead n = Act (QRand n) (\<lambda>r. Ret (reply_bytes r))"

text \<open>
  File operations on a handle that may be nil: every method of a nil \<^verbatim>\<open>*os.File\<close> returns
  \<^verbatim>\<open>os.ErrInvalid\<close>. \<open>FileReadAt\<close> returns the bytes read and the error, as \<^verbatim>\<open>ReadAt\<close> does.
\<close>

definition FileReadAt :: "string option \<Rightarrow> nat \<Rightarrow> int \<Rightarrow> (bytes \<times> go_error option) io" where
  "FileReadAt f n off =
     (case f of None \<Rightarrow> Ret ([], Some ErrInvalid)
      | Some p \<Rightarrow> Act (QFReadAt p n off) (\<lambda>r. Ret (r_bytes r, r_err r)))"

definition FileWrite :: "string option \<Rightarrow> bytes \<Rightarrow> unit go_result io" where
  "FileWrite f b =
     (case f of None \<Rightarrow> Ret (Inl ErrInvalid)
      | Some p \<Rightarrow> Act (QFWrite p b) (\<lambda>r. Ret (reply_unit r)))"

definition FileClose :: "string option \<Rightarrow> unit go_result io" where
  "FileClose f =
     (case f of None \<Rightarrow> Ret (Inl ErrInvalid)
      | Some p \<Rightarrow> Act (QFClose p) (\<lambda>r. Ret (reply_unit r)))"

definition OpenFile :: "string \<Rightarrow> string go_result io" where
  "OpenFile p = Act (QFOpen p) (\<lambda>r. Ret (case r_err r of Some e \<Rightarrow> Inl e | None \<Rightarrow> Inr p))"

definition CreateFile :: "string \<Rightarrow> string go_result io" where
  "CreateFile p = Act (QFCreate p) (\<lambda>r. Ret (case r_err r of Some e \<Rightarrow> Inl e | None \<Rightarrow> Inr p))"

definition MkdirAll :: "string \<Rightarrow> unit go_result io" where
  "MkdirAll p = Act (QMkdirAll p) (\<lambda>r. Ret (reply_unit r))"

text \<open>\<^verbatim>\<open>file.Stat()\<close>: the base name and the size, an \<^verbatim>\<open>int64\<close>.\<close>

definition FileStat :: "string \<Rightarrow> (string \<times> u64) go_result io" where
  "FileStat p = Act (QFStat p) (\<lambda>r. Ret
     (case r_err r of Some e \<Rightarrow> Inl e
      | None \<Rightarrow> Inr (bytes_str (r_bytes r), word_of_int (r_num r))))"

definition TimeNow :: "u64 io" where
  "TimeNow = Act QNow (\<lambda>r. Ret (word_of_int (r_num r)))"

text \<open>
  Output: \<^verbatim>\<open>fmt.Printf\<close> (the program's formats for standard output all end in a line feed),
  \<^verbatim>\<open>fmt.Println\<close>, \<^verbatim>\<open>log.Printf\<close> and \<^verbatim>\<open>log.Println\<close>.
\<close>

definition Printf_nl :: "string \<Rightarrow> go_arg list \<Rightarrow> unit io" where
  "Printf_nl fmt args = Act (QPrintf (fmt @ [CHR 0x0A]) args) (\<lambda>_. Ret ())"

definition Println :: "go_arg list \<Rightarrow> unit io" where
  "Println args = Act (QPrintln args) (\<lambda>_. Ret ())"

definition Logf :: "string \<Rightarrow> go_arg list \<Rightarrow> unit io" where
  "Logf fmt args = Act (QLogf fmt args) (\<lambda>_. Ret ())"

definition Logln :: "go_arg list \<Rightarrow> unit io" where
  "Logln args = Act (QLogln args) (\<lambda>_. Ret ())"

lemmas output_defs = Printf_nl_def Println_def Logf_def Logln_def

lemmas io_prim_defs =
  ReadFull_def ConnWrite_def ConnClose_def ConnReset_def RandRead_def FileReadAt_def
  FileWrite_def FileClose_def OpenFile_def CreateFile_def MkdirAll_def FileStat_def TimeNow_def
  output_defs

section \<open>Monad laws\<close>

lemma io_bind_Ret [simp]: "io_bind m Ret = m"
  by (induction m) simp_all

lemma io_bind_assoc: "io_bind (io_bind m f) g = io_bind m (\<lambda>x. io_bind (f x) g)"
  by (induction m) simp_all

lemma io_try_simps [simp]:
  "io_try (Ret (Inl e)) h f = Ret (h e)"
  "io_try (Ret (Inr x)) h f = f x"
  "io_try (Halt s) h f = Halt s"
  by (simp_all add: io_try_def)

section \<open>Executions in an arbitrary environment\<close>

text \<open>
  \<open>exec p es\<close> is what is left of \<open>p\<close> after the events \<open>es\<close>, each a request of the program
  with a reply the environment may give; \<open>None\<close> when \<open>es\<close> is no execution of \<open>p\<close>.
\<close>

fun exec :: "'a io \<Rightarrow> event list \<Rightarrow> 'a io option" where
  "exec p [] = Some p"
| "exec p (e # es) =
     (case p of
        Act q k \<Rightarrow> if fst e = q \<and> reply_ok q (snd e) then exec (k (snd e)) es else None
      | _ \<Rightarrow> None)"

lemma exec_append: "exec p (es @ fs) = Option.bind (exec p es) (\<lambda>p'. exec p' fs)"
  by (induction p es rule: exec.induct) (simp_all split: io.splits)

text \<open>Executions that return.\<close>

lemma exec_Act_Ret:
  "exec (Act q k) es = Some (Ret x) \<longleftrightarrow>
     (\<exists>r es'. es = (q, r) # es' \<and> reply_ok q r \<and> exec (k r) es' = Some (Ret x))"
  by (cases es) auto

lemma exec_Ret_Ret: "exec (Ret y) es = Some (Ret x) \<longleftrightarrow> es = [] \<and> x = y"
  by (cases es) auto

lemma exec_bind_Ret:
  "exec (io_bind p f) es = Some (Ret y) \<Longrightarrow>
   \<exists>xs ys x. es = xs @ ys \<and> exec p xs = Some (Ret x) \<and> exec (f x) ys = Some (Ret y)"
proof (induction p arbitrary: es)
  case (Ret x)
  then show ?case by (intro exI [of _ "[]"] exI [of _ es]) simp
next
  case (Halt h)
  then show ?case by (cases es) auto
next
  case (Act q k)
  from Act.prems obtain r es' where es: "es = (q, r) # es'" and ok: "reply_ok q r"
    and rest: "exec (io_bind (k r) f) es' = Some (Ret y)" by (auto simp: exec_Act_Ret)
  obtain xs ys x where "es' = xs @ ys" "exec (k r) xs = Some (Ret x)" "exec (f x) ys = Some (Ret y)"
    using Act.IH [OF rangeI rest] by blast
  with es ok show ?case by (intro exI [of _ "(q, r) # xs"] exI [of _ ys] exI [of _ x]) simp
qed

section \<open>Weakest preconditions over a monitor\<close>

text \<open>
  A monitor \<open>\<delta>\<close> reads the events of a program: \<open>\<delta> m e\<close> is its next state, \<open>None\<close> when the
  event breaks the contract the monitor describes. \<open>wph X \<delta> p Q m\<close> says that from monitor
  state \<open>m\<close> every execution of \<open>p\<close> respects the contract, stops the process only where
  \<open>X\<close> allows it, and returns only results that satisfy \<open>Q\<close>; \<open>wp\<close> allows no stop at all.
\<close>

fun mon_run :: "('m \<Rightarrow> event \<Rightarrow> 'm option) \<Rightarrow> 'm \<Rightarrow> event list \<Rightarrow> 'm option" where
  "mon_run \<delta> m [] = Some m"
| "mon_run \<delta> m (e # es) = (case \<delta> m e of None \<Rightarrow> None | Some m' \<Rightarrow> mon_run \<delta> m' es)"

lemma mon_run_append: "mon_run \<delta> m (es @ fs) = Option.bind (mon_run \<delta> m es) (\<lambda>m'. mon_run \<delta> m' fs)"
  by (induction \<delta> m es rule: mon_run.induct) (simp_all split: option.split)

primrec wph ::
  "(halt \<Rightarrow> 'm \<Rightarrow> bool) \<Rightarrow> ('m \<Rightarrow> event \<Rightarrow> 'm option) \<Rightarrow> 'a io \<Rightarrow> ('a \<Rightarrow> 'm \<Rightarrow> bool) \<Rightarrow> 'm \<Rightarrow> bool" where
  "wph X \<delta> (Ret x) Q m \<longleftrightarrow> Q x m"
| "wph X \<delta> (Halt h) Q m \<longleftrightarrow> X h m"
| "wph X \<delta> (Act q k) Q m \<longleftrightarrow>
     (\<forall>r. reply_ok q r \<longrightarrow> (case \<delta> m (q, r) of None \<Rightarrow> False | Some m' \<Rightarrow> wph X \<delta> (k r) Q m'))"

abbreviation wp :: "('m \<Rightarrow> event \<Rightarrow> 'm option) \<Rightarrow> 'a io \<Rightarrow> ('a \<Rightarrow> 'm \<Rightarrow> bool) \<Rightarrow> 'm \<Rightarrow> bool" where
  "wp \<equiv> wph (\<lambda>_ _. False)"

lemma wp_bind: "wph X \<delta> (io_bind p f) Q m = wph X \<delta> p (\<lambda>x. wph X \<delta> (f x) Q) m"
  by (induction p arbitrary: m) (simp_all cong: option.case_cong)

lemma wph_mono:
  assumes "wph X \<delta> p Q m" and "\<And>x m. Q x m \<Longrightarrow> Q' x m" and "\<And>h m. X h m \<Longrightarrow> X' h m"
  shows "wph X' \<delta> p Q' m"
  using assms(1)
proof (induction p arbitrary: m)
  case (Act q k)
  show ?case
  proof (simp, intro allI impI)
    fix r
    assume ok: "reply_ok q r"
    with Act.prems obtain m' where m': "\<delta> m (q, r) = Some m'" and "wph X \<delta> (k r) Q m'"
      by (auto split: option.splits)
    then have "wph X' \<delta> (k r) Q' m'" by (blast intro: Act.IH)
    with m' show "case \<delta> m (q, r) of None \<Rightarrow> False | Some m' \<Rightarrow> wph X' \<delta> (k r) Q' m'"
      by simp
  qed
qed (use assms(2,3) in simp_all)

lemma wp_mono: "wph X \<delta> p Q m \<Longrightarrow> (\<And>x m. Q x m \<Longrightarrow> Q' x m) \<Longrightarrow> wph X \<delta> p Q' m"
  by (rule wph_mono)

lemma wp_try:
  "wph X \<delta> (io_try p h f) Q m =
     wph X \<delta> p (\<lambda>r. case r of Inl e \<Rightarrow> Q (h e) | Inr x \<Rightarrow> wph X \<delta> (f x) Q) m"
proof -
  have "(\<lambda>r. wph X \<delta> (case r of Inl e \<Rightarrow> Ret (h e) | Inr x \<Rightarrow> f x) Q) =
      (\<lambda>r. case r of Inl e \<Rightarrow> Q (h e) | Inr x \<Rightarrow> wph X \<delta> (f x) Q)"
    by (simp add: fun_eq_iff split: sum.split)
  then show ?thesis by (simp add: io_try_def wp_bind)
qed

text \<open>Soundness: an execution keeps the weakest precondition and satisfies the monitor.\<close>

lemma wp_exec:
  assumes "wph X \<delta> p Q m" and "exec p es = Some p'"
  shows "\<exists>m'. mon_run \<delta> m es = Some m' \<and> wph X \<delta> p' Q m'"
  using assms
proof (induction es arbitrary: p m)
  case Nil
  then show ?case by simp
next
  case (Cons e es)
  then obtain q k where p: "p = Act q k" and q: "fst e = q" and ok: "reply_ok q (snd e)"
    and rest: "exec (k (snd e)) es = Some p'"
    by (auto split: io.splits if_splits)
  from Cons.prems(1) p q ok obtain m1 where m1: "\<delta> m e = Some m1" and "wph X \<delta> (k (snd e)) Q m1"
    by (cases e) (auto split: option.splits)
  then show ?case using Cons.IH rest by simp
qed

lemma wp_exec_Ret: "wph X \<delta> p Q m \<Longrightarrow> exec p es = Some (Ret x) \<Longrightarrow> \<exists>m'. mon_run \<delta> m es = Some m' \<and> Q x m'"
  by (drule (1) wp_exec) simp

lemma wp_exec_Halt: "wph X \<delta> p Q m \<Longrightarrow> exec p es = Some (Halt h) \<Longrightarrow> \<exists>m'. mon_run \<delta> m es = Some m' \<and> X h m'"
  by (drule (1) wp_exec) simp

section \<open>Observing an execution\<close>

text \<open>
  What an execution has done so far: the bytes it has read from the stream, the messages it
  has handed to \<^verbatim>\<open>Write\<close>, the files it created, what it wrote to a file and the files it
  closed.
\<close>

record ghost =
  g_rd :: bytes
  g_wr :: "bytes list"
  g_cr :: "string list"
  g_fw :: "(string \<times> bytes) list"
  g_cl :: "string list"

definition ghost_init :: ghost where
  "ghost_init = \<lparr>g_rd = [], g_wr = [], g_cr = [], g_fw = [], g_cl = []\<rparr>"

fun observe :: "ghost \<Rightarrow> event \<Rightarrow> ghost" where
  "observe g (QRead n, r) = (if r_err r = None then g\<lparr>g_rd := g_rd g @ r_bytes r\<rparr> else g)"
| "observe g (QWrite b, r) = g\<lparr>g_wr := g_wr g @ [b]\<rparr>"
| "observe g (QFCreate p, r) = (if r_err r = None then g\<lparr>g_cr := g_cr g @ [p]\<rparr> else g)"
| "observe g (QFWrite p b, r) = g\<lparr>g_fw := g_fw g @ [(p, b)]\<rparr>"
| "observe g (QFClose p, r) = g\<lparr>g_cl := g_cl g @ [p]\<rparr>"
| "observe g (_, r) = g"

definition observed :: "event list \<Rightarrow> ghost" where
  "observed es = foldl observe ghost_init es"

text \<open>
  A monitor with a contract for what may be sent (\<open>cw\<close>) and for which file may be created and what
  may be written to a file (\<open>cf\<close>), each judged against what has been observed before.
\<close>

fun watch_ok :: "(ghost \<Rightarrow> bytes \<Rightarrow> bool) \<Rightarrow> (ghost \<Rightarrow> req \<Rightarrow> bool) \<Rightarrow> ghost \<Rightarrow> req \<Rightarrow> bool" where
  "watch_ok cw cf g (QWrite b) = cw g b"
| "watch_ok cw cf g (QFCreate p) = cf g (QFCreate p)"
| "watch_ok cw cf g (QFWrite p b) = cf g (QFWrite p b)"
| "watch_ok cw cf g _ = True"

definition watch :: "(ghost \<Rightarrow> bytes \<Rightarrow> bool) \<Rightarrow> (ghost \<Rightarrow> req \<Rightarrow> bool) \<Rightarrow> ghost \<Rightarrow> event \<Rightarrow> ghost option" where
  "watch cw cf g e = (if watch_ok cw cf g (fst e) then Some (observe g e) else None)"

lemma mon_run_watch:
  "mon_run (watch cw cf) g es = Some g' \<Longrightarrow>
     g' = foldl observe g es \<and>
     (\<forall>xs e ys. es = xs @ e # ys \<longrightarrow> watch_ok cw cf (foldl observe g xs) (fst e))"
proof (induction es arbitrary: g)
  case Nil
  then show ?case by simp
next
  case (Cons e es)
  then obtain g1 where "watch cw cf g e = Some g1" and g1: "mon_run (watch cw cf) g1 es = Some g'"
    by (auto split: option.splits)
  then have ok: "watch_ok cw cf g (fst e)" and rest: "mon_run (watch cw cf) (observe g e) es = Some g'"
    by (auto simp: watch_def split: if_splits)
  from Cons.IH [OF rest] ok show ?case
    by (auto simp: Cons_eq_append_conv)
qed

text \<open>The facts a property about all executions is read off from.\<close>

lemma wp_watch_contract:
  assumes "wph X (watch cw cf) p Q ghost_init" and "exec p (xs @ e # ys) = Some p'"
  shows "watch_ok cw cf (observed xs) (fst e)"
  using wp_exec [OF assms] mon_run_watch unfolding observed_def by blast

lemma wp_watch_result:
  assumes "wph X (watch cw cf) p Q ghost_init" and "exec p es = Some (Ret x)"
  shows "Q x (observed es)"
  using wp_exec_Ret [OF assms] mon_run_watch unfolding observed_def by blast

lemma wp_watch_halt:
  assumes "wph X (watch cw cf) p Q ghost_init" and "exec p es = Some (Halt h)"
  shows "X h (observed es)"
  using wp_exec_Halt [OF assms] mon_run_watch unfolding observed_def by blast

text \<open>Weakest preconditions of the calls.\<close>

lemma wp_ReadFull:
  "wph X (watch cw cf) (ReadFull n) Q g \<longleftrightarrow>
     (if n = 0 then Q (Inr []) g
      else (\<forall>e. Q (Inl e) g) \<and> (\<forall>b. length b = n \<longrightarrow> Q (Inr b) (g\<lparr>g_rd := g_rd g @ b\<rparr>)))"
proof (cases "n = 0")
  case True
  then show ?thesis by (simp add: ReadFull_def)
next
  case False
  have "wph X (watch cw cf) (ReadFull n) Q g \<longleftrightarrow>
      (\<forall>r. reply_ok (QRead n) r \<longrightarrow> Q (reply_bytes r) (observe g (QRead n, r)))"
    using False by (simp add: ReadFull_def watch_def)
  also have "\<dots> \<longleftrightarrow> (\<forall>e. Q (Inl e) g) \<and> (\<forall>b. length b = n \<longrightarrow> Q (Inr b) (g\<lparr>g_rd := g_rd g @ b\<rparr>))"
  proof (intro iffI conjI allI impI)
    fix e
    assume *: "\<forall>r. reply_ok (QRead n) r \<longrightarrow> Q (reply_bytes r) (observe g (QRead n, r))"
    show "Q (Inl e) g" using * [rule_format, of "Reply (Some e) [] 0"] by (simp add: reply_bytes_def)
  next
    fix b :: bytes
    assume *: "\<forall>r. reply_ok (QRead n) r \<longrightarrow> Q (reply_bytes r) (observe g (QRead n, r))"
      and "length b = n"
    then show "Q (Inr b) (g\<lparr>g_rd := g_rd g @ b\<rparr>)"
      using * [rule_format, of "Reply None b 0"] by (simp add: reply_bytes_def)
  qed (auto simp: reply_bytes_def split: option.split)
  finally show ?thesis using False by simp
qed

lemma wp_ConnWrite:
  "wph X (watch cw cf) (ConnWrite b) Q g \<longleftrightarrow>
     cw g b \<and> (\<forall>x. Q x (g\<lparr>g_wr := g_wr g @ [b]\<rparr>))"
proof -
  have "(\<exists>r. x = reply_unit r)" for x
    by (cases x) (auto simp: reply_unit_def intro: exI [of _ "Reply None [] 0"]
        exI [of _ "Reply (Some _) [] 0"])
  then show ?thesis
    by (auto simp: ConnWrite_def watch_def) (metis)
qed

lemma wp_RandRead:
  "(\<And>e. Q (Inl e) g) \<Longrightarrow> (\<And>b. length b = n \<Longrightarrow> Q (Inr b) g) \<Longrightarrow> wph X (watch cw cf) (RandRead n) Q g"
  by (auto simp: RandRead_def watch_def reply_bytes_def split: option.split)

lemma wp_FileReadAt:
  "(\<And>b e. length b \<le> n \<Longrightarrow> (e = None \<longrightarrow> length b = n \<or> f = None) \<Longrightarrow> Q (b, e) g) \<Longrightarrow>
   wph X (watch cw cf) (FileReadAt f n off) Q g"
  by (auto simp: FileReadAt_def watch_def split: option.split)

lemma wp_FileWrite:
  "cf g (QFWrite p b) \<Longrightarrow> (\<And>x g'. Q (Inl x) g') \<Longrightarrow> Q (Inr ()) (g\<lparr>g_fw := g_fw g @ [(p, b)]\<rparr>) \<Longrightarrow>
   wph X (watch cw cf) (FileWrite (Some p) b) Q g"
  by (auto simp: FileWrite_def watch_def reply_unit_def split: option.split)

lemma wp_FileClose:
  "(\<And>x. Q x (g\<lparr>g_cl := g_cl g @ [p]\<rparr>)) \<Longrightarrow> wph X (watch cw cf) (FileClose (Some p)) Q g"
  by (auto simp: FileClose_def watch_def)

lemma wp_CreateFile:
  "cf g (QFCreate p) \<Longrightarrow> (\<And>e. Q (Inl e) g) \<Longrightarrow> Q (Inr p) (g\<lparr>g_cr := g_cr g @ [p]\<rparr>) \<Longrightarrow>
   wph X (watch cw cf) (CreateFile p) Q g"
  by (auto simp: CreateFile_def watch_def split: option.split)

lemma wp_MkdirAll: "(\<And>x. Q x g) \<Longrightarrow> wph X (watch cw cf) (MkdirAll p) Q g"
  by (auto simp: MkdirAll_def watch_def)

text \<open>Output changes nothing a monitor of this kind observes.\<close>

lemma watch_output [simp]: "is_output q \<Longrightarrow> watch cw cf g (q, r) = Some g"
  by (cases q) (simp_all add: watch_def)

lemma wp_output [simp]:
  "wph X (watch cw cf) (Printf_nl fmt args) Q g = Q () g"
  "wph X (watch cw cf) (Println args) Q g = Q () g"
  "wph X (watch cw cf) (Logf fmt args) Q g = Q () g"
  "wph X (watch cw cf) (Logln args) Q g = Q () g"
  by (simp_all add: output_defs)

section \<open>Bounded programs\<close>

text \<open>\<open>at_most p n\<close>: whatever the replies, \<open>p\<close> makes at most \<open>n\<close> calls before it ends.\<close>

primrec at_most :: "'a io \<Rightarrow> nat \<Rightarrow> bool" where
  "at_most (Ret x) n = True"
| "at_most (Halt h) n = True"
| "at_most (Act q k) n = (0 < n \<and> (\<forall>r. at_most (k r) (n - 1)))"

lemma at_most_mono: "at_most p m \<Longrightarrow> m \<le> n \<Longrightarrow> at_most p n"
proof (induction p arbitrary: m n)
  case (Act q k)
  have "at_most (k r) (n - 1)" for r
    by (rule Act.IH [of "k r" "m - 1"]) (use Act.prems in \<open>auto simp: diff_le_mono\<close>)
  with Act.prems show ?case by simp
qed simp_all

lemma at_most_bind: "at_most p m \<Longrightarrow> (\<And>x. at_most (f x) n) \<Longrightarrow> at_most (io_bind p f) (m + n)"
proof (induction p arbitrary: m)
  case (Ret x)
  then show ?case using at_most_mono [of "f x" n "m + n"] by simp
next
  case (Act q k)
  have "at_most (io_bind (k r) f) (m - 1 + n)" for r
    by (rule Act.IH) (use Act.prems in auto)
  with Act.prems show ?case by simp
qed simp

lemma at_most_exec: "at_most p n \<Longrightarrow> exec p es = Some p' \<Longrightarrow> length es \<le> n"
proof (induction es arbitrary: p n)
  case (Cons e es)
  then obtain q k where p: "p = Act q k" and "exec (k (snd e)) es = Some p'"
    by (auto split: io.splits if_splits)
  with Cons show ?case using Cons.IH [of "k (snd e)" "n - 1"] by force
qed simp

lemma at_most_try: "at_most p m \<Longrightarrow> (\<And>x. at_most (f x) (n - m)) \<Longrightarrow> m \<le> n \<Longrightarrow> at_most (io_try p h f) n"
  using at_most_bind [of p m "\<lambda>r. case r of Inl e \<Rightarrow> Ret (h e) | Inr x \<Rightarrow> f x" "n - m"]
  by (auto simp: io_try_def split: sum.split)

lemma at_most_then: "at_most p m \<Longrightarrow> (\<And>x. at_most (f x) (n - m)) \<Longrightarrow> m \<le> n \<Longrightarrow> at_most (io_bind p f) n"
  using at_most_bind [of p m f "n - m"] by simp

lemma at_most_calls [simp]:
  "at_most (ReadFull k) n = (k = 0 \<or> 0 < n)" "at_most (ConnWrite b) n = (0 < n)"
  "at_most (RandRead k) n = (0 < n)" "at_most (MkdirAll p) n = (0 < n)" "at_most (CreateFile p) n = (0 < n)"
  "at_most (FileReadAt f k off) n = (f = None \<or> 0 < n)" "at_most (FileWrite f b) n = (f = None \<or> 0 < n)"
  "at_most (FileClose f) n = (f = None \<or> 0 < n)" "at_most (OpenFile p) n = (0 < n)"
  "at_most (FileStat p) n = (0 < n)" "at_most TimeNow n = (0 < n)"
  "at_most (Printf_nl fmt args) n = (0 < n)" "at_most (Println args) n = (0 < n)"
  "at_most (Logf fmt args) n = (0 < n)" "at_most (Logln args) n = (0 < n)"
  by (auto simp: io_prim_defs split: option.split)

text \<open>A call is one call.\<close>

lemmas at_most_call =
  at_most_try [of "ConnWrite b" 1 for b] at_most_try [of "CreateFile p" 1 for p]
  at_most_try [of "FileWrite f b" 1 for f b] at_most_try [of "FileClose f" 1 for f]
  at_most_then [of "MkdirAll p" 1 for p] at_most_then [of "FileClose f" 1 for f]
  at_most_then [of "OpenFile p" 1 for p] at_most_then [of "FileStat p" 1 for p] at_most_then [of TimeNow 1]
  at_most_then [of "Printf_nl fmt args" 1 for fmt args] at_most_then [of "Logf fmt args" 1 for fmt args]

section \<open>Programs that avoid calls\<close>

text \<open>
  \<open>avoids B P p\<close>: whatever the replies, \<open>p\<close> makes no call that satisfies \<open>B\<close>, and what it returns
  satisfies \<open>P\<close>.
\<close>

primrec avoids :: "(req \<Rightarrow> bool) \<Rightarrow> ('a \<Rightarrow> bool) \<Rightarrow> 'a io \<Rightarrow> bool" where
  "avoids B P (Ret x) = P x"
| "avoids B P (Halt h) = True"
| "avoids B P (Act q k) = (\<not> B q \<and> (\<forall>r. avoids B P (k r)))"

lemma avoids_bind: "avoids B P (io_bind p f) = avoids B (\<lambda>x. avoids B P (f x)) p"
  by (induction p) simp_all

lemma avoids_mono: "avoids B P p \<Longrightarrow> (\<And>x. P x \<Longrightarrow> Q x) \<Longrightarrow> avoids B Q p"
  by (induction p) simp_all

lemma avoids_then: "avoids B (\<lambda>_. True) p \<Longrightarrow> (\<And>x. avoids B P (f x)) \<Longrightarrow> avoids B P (io_bind p f)"
  unfolding avoids_bind by (rule avoids_mono) auto

lemma avoids_try:
  "avoids B (\<lambda>_. True) p \<Longrightarrow> (\<And>e. P (h e)) \<Longrightarrow> (\<And>x. avoids B P (f x)) \<Longrightarrow> avoids B P (io_try p h f)"
  unfolding io_try_def by (rule avoids_then) (auto split: sum.split)

lemma avoids_calls [simp]:
  "(\<And>n. \<not> B (QRead n)) \<Longrightarrow> avoids B (\<lambda>_. True) (ReadFull n)"
  "\<not> B (QWrite b) \<Longrightarrow> avoids B (\<lambda>_. True) (ConnWrite b)"
  "\<not> B (QRand n) \<Longrightarrow> avoids B (\<lambda>_. True) (RandRead n)"
  "(\<And>p. \<not> B (QFReadAt p n off)) \<Longrightarrow> avoids B (\<lambda>_. True) (FileReadAt f n off)"
  "(\<And>p. \<not> B (QFWrite p b)) \<Longrightarrow> avoids B (\<lambda>_. True) (FileWrite f b)"
  "(\<And>p. \<not> B (QFClose p)) \<Longrightarrow> avoids B (\<lambda>_. True) (FileClose f)"
  "\<not> B (QMkdirAll p) \<Longrightarrow> avoids B (\<lambda>_. True) (MkdirAll p)"
  "\<not> B (QFCreate p) \<Longrightarrow> avoids B (\<lambda>_. True) (CreateFile p)"
  "\<not> B (QPrintf (fmt @ [CHR 0x0A]) args) \<Longrightarrow> avoids B (\<lambda>_. True) (Printf_nl fmt args)"
  "\<not> B (QPrintln args) \<Longrightarrow> avoids B (\<lambda>_. True) (Println args)"
  "\<not> B (QLogf fmt args) \<Longrightarrow> avoids B (\<lambda>_. True) (Logf fmt args)"
  by (auto simp: io_prim_defs split: option.split)

text \<open>What the calls a program avoids cannot change.\<close>

lemma avoids_wp:
  assumes "avoids B P p" and "I m" and "\<And>q r m. I m \<Longrightarrow> \<not> B q \<Longrightarrow> \<exists>m'. \<delta> m (q, r) = Some m' \<and> I m'"
    and "\<And>x m'. P x \<Longrightarrow> I m' \<Longrightarrow> Q x m'"
  shows "wph (\<lambda>_ _. True) \<delta> p Q m"
  using assms(1,2)
proof (induction p arbitrary: m)
  case (Act q k)
  show ?case
  proof (simp, intro allI impI)
    fix r
    obtain m' where "\<delta> m (q, r) = Some m'" "I m'" using Act.prems assms(3) [of m q r] by auto
    with Act show "case \<delta> m (q, r) of None \<Rightarrow> False | Some m' \<Rightarrow> wph (\<lambda>_ _. True) \<delta> (k r) Q m'" by simp
  qed
qed (use assms(4) in simp_all)

end
