(* ===== verification/Protocol.thy ===== *)
theory Protocol
  imports Go_IO
begin

text \<open>
  Package \<^verbatim>\<open>protocol\<close> (\<^verbatim>\<open>src/Protocol\<close>): the transfer states and their transition table
  (\<^verbatim>\<open>state.go\<close>), the header and chunk structures (\<^verbatim>\<open>protocol.go\<close>), the session
  (\<^verbatim>\<open>session.go\<close>) and the loop that drives a session through a step table (\<^verbatim>\<open>fsm.go\<close>).
  The locale \<open>step_table\<close> is the contract between the loop and a table: what every step has
  to guarantee, and what the loop then guarantees in any environment.
\<close>

section \<open>Transfer states\<close>

datatype TransferState =
    StateIdle
  | StateSendHeader
  | StateReceiveHeader
  | StateWaitingChunkRequest
  | StateSendChunkResponse
  | StateWaitingLotteryTicket
  | StateSendKeyReveal
  | StateSendChunkRequest
  | StateWaitingChunkResponse
  | StateSendLotteryTicket
  | StateWaitingKeyReveal
  | StateVerifyChunk
  | StateVerifyMerkle
  | StateFinished
  | StateError

fun validTransitions :: "TransferState \<Rightarrow> TransferState list" where
  "validTransitions StateIdle = [StateSendHeader, StateReceiveHeader]"
| "validTransitions StateSendHeader = [StateWaitingChunkRequest, StateFinished]"
| "validTransitions StateWaitingChunkRequest = [StateSendChunkResponse]"
| "validTransitions StateSendChunkResponse = [StateWaitingLotteryTicket]"
| "validTransitions StateWaitingLotteryTicket = [StateSendKeyReveal]"
| "validTransitions StateSendKeyReveal = [StateWaitingChunkRequest, StateVerifyMerkle]"
| "validTransitions StateReceiveHeader = [StateSendChunkRequest, StateFinished]"
| "validTransitions StateSendChunkRequest = [StateWaitingChunkResponse]"
| "validTransitions StateWaitingChunkResponse = [StateSendLotteryTicket]"
| "validTransitions StateSendLotteryTicket = [StateWaitingKeyReveal]"
| "validTransitions StateWaitingKeyReveal = [StateVerifyChunk]"
| "validTransitions StateVerifyChunk = [StateSendChunkRequest, StateVerifyMerkle]"
| "validTransitions StateVerifyMerkle = [StateFinished]"
| "validTransitions StateFinished = []"
| "validTransitions StateError = []"

text \<open>
  \<^verbatim>\<open>String()\<close>. The fallback \<^verbatim>\<open>"Unknown"\<close> is for \<^verbatim>\<open>uint8\<close> values that are none of the
  constants; the type \<^typ>\<open>TransferState\<close> has no such value.
\<close>

fun state_String :: "TransferState \<Rightarrow> string" where
  "state_String StateIdle = ''Idle''"
| "state_String StateSendHeader = ''SendHeader''"
| "state_String StateReceiveHeader = ''ReceiveHeader''"
| "state_String StateWaitingChunkRequest = ''WaitingChunkRequest''"
| "state_String StateSendChunkResponse = ''SendChunkResponse''"
| "state_String StateWaitingLotteryTicket = ''WaitingLotteryTicket''"
| "state_String StateSendKeyReveal = ''SendKeyReveal''"
| "state_String StateSendChunkRequest = ''SendChunkRequest''"
| "state_String StateWaitingChunkResponse = ''WaitingChunkResponse''"
| "state_String StateSendLotteryTicket = ''SendLotteryTicket''"
| "state_String StateWaitingKeyReveal = ''WaitingKeyReveal''"
| "state_String StateVerifyChunk = ''VerifyChunk''"
| "state_String StateVerifyMerkle = ''VerifyMerkle''"
| "state_String StateFinished = ''Finished''"
| "state_String StateError = ''Error''"

text \<open>\<^verbatim>\<open>isAllowed\<close> of \<^verbatim>\<open>session.go\<close>: the loop over the table's row.\<close>

fun any_equal :: "TransferState \<Rightarrow> TransferState list \<Rightarrow> bool" where
  "any_equal next [] = False"
| "any_equal next (st # sts) = (if st = next then True else any_equal next sts)"

definition isAllowed :: "TransferState \<Rightarrow> TransferState \<Rightarrow> bool" where
  "isAllowed current next = any_equal next (validTransitions current)"

section \<open>Header and chunk structures\<close>

record MetaData =
  h_Name :: string
  h_FileSize :: u32
  h_Reps :: u32
  h_FileID :: bytes

record Chunk =
  c_FileID :: bytes
  c_Index :: u32
  c_Length :: u32
  c_Plaintext :: bytes
  c_Ciphertext :: bytes
  c_Key :: bytes
  c_Nonce :: bytes
  c_HResp :: bytes
  c_Leaf :: bytes

definition NewChunk :: "bytes \<Rightarrow> u32 \<Rightarrow> bytes \<Rightarrow> Chunk" where
  "NewChunk fileID index data =
     \<lparr>c_FileID = fileID, c_Index = index, c_Length = word_of_nat (length data),
      c_Plaintext = data, c_Ciphertext = [], c_Key = [], c_Nonce = [], c_HResp = [],
      c_Leaf = []\<rparr>"

abbreviation (input) KeySize :: nat where "KeySize \<equiv> 32"
abbreviation (input) NonceSize :: nat where "NonceSize \<equiv> 12"
abbreviation (input) HashSize :: nat where "HashSize \<equiv> 32"
abbreviation (input) ChunkSize :: nat where "ChunkSize \<equiv> 32768"

section \<open>Sessions\<close>

datatype Role = RoleSender | RoleReceiver

text \<open>
  The \<^verbatim>\<open>Conn\<close> field is the stream the program's \<open>QRead\<close> and \<open>QWrite\<close> requests go to. A session
  is used by one goroutine only, so its mutex is always free when a method takes it.
\<close>

record Session =
  s_state :: TransferState
  s_Role :: Role
  s_FileID :: bytes
  s_FileName :: string
  s_FileSize :: u64
  s_ChunkSize :: u32
  s_CurrentChunk :: u32
  s_TotalChunks :: u32
  s_File :: "string option"
  s_PendingChunk :: "Chunk option"
  s_Leaves :: "bytes list"

definition NewSession :: "Role \<Rightarrow> Session" where
  "NewSession role =
     \<lparr>s_state = StateIdle, s_Role = role, s_FileID = [], s_FileName = [], s_FileSize = 0,
      s_ChunkSize = word_of_nat ChunkSize, s_CurrentChunk = 0, s_TotalChunks = 0,
      s_File = None, s_PendingChunk = None, s_Leaves = []\<rparr>"

definition GetState :: "Session \<Rightarrow> TransferState" where
  "GetState s = s_state s"

text \<open>\<^verbatim>\<open>Transition\<close> and \<^verbatim>\<open>Fail\<close> write what they do to the log, with the state the session is in before.\<close>

definition Transition :: "Session \<Rightarrow> TransferState \<Rightarrow> Session go_result io" where
  "Transition s next =
     (if \<not> isAllowed (s_state s) next
      then Ret (Inl (Errorf ''illegal transition %s -> %s''
             [AStr (state_String (s_state s)), AStr (state_String next)]))
      else io_bind (Logf ''[Chunk %d/%d] %s -> %s''
             [AU32 (s_CurrentChunk s + 1), AU32 (s_TotalChunks s),
              AStr (state_String (s_state s)), AStr (state_String next)]) (\<lambda>_.
           Ret (Inr (s\<lparr>s_state := next\<rparr>))))"

definition AdvanceChunk :: "Session \<Rightarrow> Session" where
  "AdvanceChunk s = s\<lparr>s_CurrentChunk := s_CurrentChunk s + 1\<rparr>"

definition IsLastChunk :: "Session \<Rightarrow> bool" where
  "IsLastChunk s \<longleftrightarrow> s_TotalChunks s > 0 \<and> s_CurrentChunk s = s_TotalChunks s - 1"

definition Fail :: "Session \<Rightarrow> go_error \<Rightarrow> (Session \<times> go_error) io" where
  "Fail s err =
     io_bind (Logf ''[FSM] %s -> Error: %v'' [AStr (state_String (s_state s)), AErr err]) (\<lambda>_.
     Ret (s\<lparr>s_state := StateError\<rparr>, err))"

section \<open>The driver loop\<close>

text \<open>
  A step gets the session and returns it, changed, with the next state or an error.
  \<^verbatim>\<open>Run\<close> is a loop without a bound: the model takes fuel, one unit per iteration, and
  \<open>OutOfFuel\<close> is the result of a run that is still going when it is used up.
\<close>

type_synonym Step = "Session \<Rightarrow> (Session \<times> TransferState go_result) io"
type_synonym StepTable = "TransferState \<Rightarrow> Step option"

datatype run_result = OutOfFuel | Returned Session "go_error option"

text \<open>\<^verbatim>\<open>return s.Fail(err)\<close>.\<close>

definition run_fail :: "Session \<Rightarrow> go_error \<Rightarrow> run_result io" where
  "run_fail s err = io_bind (Fail s err) (\<lambda>(s', err'). Ret (Returned s' (Some err')))"

fun Run :: "nat \<Rightarrow> Session \<Rightarrow> StepTable \<Rightarrow> run_result io" where
  "Run 0 s steps = Ret OutOfFuel"
| "Run (Suc fuel) s steps =
     (let current = GetState s in
      if current = StateFinished then Ret (Returned s None)
      else if current = StateError
        then Ret (Returned s (Some (Errorf ''session is in error state'' [])))
      else case steps current of
        None \<Rightarrow> run_fail s (Errorf ''no step registered for state %s''
                  [AStr (state_String current)])
      | Some step \<Rightarrow>
          io_bind (step s) (\<lambda>(s1, r).
            case r of
              Inl err \<Rightarrow> run_fail s1 (Errorf ''step %s failed: %w''
                           [AStr (state_String current), AErr err])
            | Inr next \<Rightarrow>
                io_bind (Transition s1 next) (\<lambda>r'.
                  case r' of
                    Inl err \<Rightarrow> run_fail s1 err
                  | Inr s2 \<Rightarrow> Run fuel s2 steps)))"

text \<open>The rest of an iteration after the step, and one iteration.\<close>

definition run_next :: "nat \<Rightarrow> StepTable \<Rightarrow> TransferState \<Rightarrow> Session \<times> TransferState go_result \<Rightarrow> run_result io" where
  "run_next fuel steps current x =
     (case snd x of
        Inl err \<Rightarrow> run_fail (fst x) (Errorf ''step %s failed: %w'' [AStr (state_String current), AErr err])
      | Inr next \<Rightarrow> io_bind (Transition (fst x) next) (\<lambda>r.
          case r of Inl err \<Rightarrow> run_fail (fst x) err | Inr s2 \<Rightarrow> Run fuel s2 steps))"

lemma run_next_eq:
  "run_next fuel steps current = (\<lambda>(s1, r). case r of
      Inl err \<Rightarrow> run_fail s1 (Errorf ''step %s failed: %w'' [AStr (state_String current), AErr err])
    | Inr next \<Rightarrow> io_bind (Transition s1 next) (\<lambda>r'.
        case r' of Inl err \<Rightarrow> run_fail s1 err | Inr s2 \<Rightarrow> Run fuel s2 steps))"
  by (auto simp: run_next_def fun_eq_iff split: sum.split)

lemma Run_Suc:
  "Run (Suc fuel) s steps =
     (if s_state s = StateFinished then Ret (Returned s None)
      else if s_state s = StateError then Ret (Returned s (Some (Errorf ''session is in error state'' [])))
      else case steps (s_state s) of
        None \<Rightarrow> run_fail s (Errorf ''no step registered for state %s'' [AStr (state_String (s_state s))])
      | Some step \<Rightarrow> io_bind (step s) (run_next fuel steps (s_state s)))"
  by (simp add: Let_def GetState_def run_next_eq split: option.split)

text \<open>From here on the loop is unfolded only on purpose.\<close>

declare Run.simps(2) [simp del]

lemma Run_step:
  assumes "steps (s_state s) \<noteq> None" and "s_state s \<noteq> StateFinished" and "s_state s \<noteq> StateError"
  shows "Run (Suc fuel) s steps = io_bind (the (steps (s_state s)) s) (run_next fuel steps (s_state s))"
  using assms by (auto simp: Run_Suc)

text \<open>Giving up is one call, the line in the log.\<close>

lemma run_fail_eq:
  "run_fail s err = io_bind (Logf ''[FSM] %s -> Error: %v'' [AStr (state_String (s_state s)), AErr err])
     (\<lambda>_. Ret (Returned (s\<lparr>s_state := StateError\<rparr>) (Some err)))"
  by (simp add: run_fail_def Fail_def io_bind_assoc)

lemma at_most_run_fail [simp]: "at_most (run_fail s err) n = (0 < n)"
  by (simp add: run_fail_eq Logf_def)

text \<open>
  A table whose steps are bounded makes the loop bounded: per iteration the calls of the step and at most
  one line in the log.
\<close>

lemma Run_at_most:
  assumes "\<And>st step s. steps st = Some step \<Longrightarrow> at_most (step s) n"
  shows "at_most (Run fuel s steps) (Suc n * fuel)"
proof (induction fuel arbitrary: s)
  case (Suc fuel)
  have rest: "at_most (run_next fuel steps st x) (Suc (Suc n * fuel))" for st x
    using Suc.IH at_most_mono [OF Suc.IH, of "Suc (Suc n * fuel)"]
    by (auto simp: run_next_def Transition_def Logf_def split: sum.split)
  have "at_most (io_bind (step s) (run_next fuel steps st)) (n + Suc (Suc n * fuel))"
    if "steps st = Some step" for st step
    by (intro at_most_bind assms [OF that] rest)
  then show ?case by (auto simp: Run_Suc split: option.split)
qed simp

text \<open>The loop itself only writes to the log.\<close>

lemma Run_avoids:
  assumes "\<And>st step s. steps st = Some step \<Longrightarrow> avoids B (\<lambda>_. True) (step s)" and "\<And>fmt args. \<not> B (QLogf fmt args)"
  shows "avoids B (\<lambda>_. True) (Run fuel s steps)"
proof (induction fuel arbitrary: s)
  case (Suc fuel)
  have fail: "avoids B (\<lambda>_. True) (run_fail s err)" for s err
    unfolding run_fail_eq by (rule avoids_then) (simp_all add: assms(2))
  have "avoids B (\<lambda>_. True) (run_next fuel steps st x)" for st x
    by (auto simp: run_next_def Transition_def fail Suc assms(2) intro!: avoids_then split: sum.split)
  then show ?case by (auto simp: Run_Suc fail intro!: avoids_then assms split: option.split)
qed simp

section \<open>The transition table\<close>

lemma any_equal_iff [simp]: "any_equal next sts \<longleftrightarrow> next \<in> set sts"
  by (induction sts) auto

lemma isAllowed_iff: "isAllowed st next \<longleftrightarrow> next \<in> set (validTransitions st)"
  by (simp add: isAllowed_def)

lemma state_String_inj: "state_String a = state_String b \<Longrightarrow> a = b"
  by (cases a; cases b; simp)

text \<open>The states a machine that started as a sender, or as a receiver, can be in.\<close>

fun sender_state :: "TransferState \<Rightarrow> bool" where
  "sender_state st \<longleftrightarrow> st \<in> {StateSendHeader, StateWaitingChunkRequest, StateSendChunkResponse,
     StateWaitingLotteryTicket, StateSendKeyReveal, StateVerifyMerkle, StateFinished}"

fun receiver_state :: "TransferState \<Rightarrow> bool" where
  "receiver_state st \<longleftrightarrow> st \<in> {StateReceiveHeader, StateSendChunkRequest, StateWaitingChunkResponse,
     StateSendLotteryTicket, StateWaitingKeyReveal, StateVerifyChunk, StateVerifyMerkle,
     StateFinished}"

lemma sender_state_closed: "sender_state a \<Longrightarrow> isAllowed a b \<Longrightarrow> sender_state b"
  by (cases a) (auto simp: isAllowed_iff)

lemma receiver_state_closed: "receiver_state a \<Longrightarrow> isAllowed a b \<Longrightarrow> receiver_state b"
  by (cases a) (auto simp: isAllowed_iff)

lemma sender_state_closed_star: "isAllowed\<^sup>*\<^sup>* a b \<Longrightarrow> sender_state a \<Longrightarrow> sender_state b"
  by (induction rule: rtranclp_induct) (blast intro: sender_state_closed)+

lemma receiver_state_closed_star: "isAllowed\<^sup>*\<^sup>* a b \<Longrightarrow> receiver_state a \<Longrightarrow> receiver_state b"
  by (induction rule: rtranclp_induct) (blast intro: receiver_state_closed)+

lemma allowed_step: "b \<in> set (validTransitions a) \<Longrightarrow> isAllowed\<^sup>*\<^sup>* b c \<Longrightarrow> isAllowed\<^sup>*\<^sup>* a c"
  by (simp add: isAllowed_iff converse_rtranclp_into_rtranclp)

text \<open>From every state but the error state the table has a path to the end.\<close>

lemma finish_reachable_from:
  assumes "st \<noteq> StateError"
  shows "isAllowed\<^sup>*\<^sup>* st StateFinished"
proof -
  have vm: "isAllowed\<^sup>*\<^sup>* StateVerifyMerkle StateFinished"
    by (rule allowed_step [of StateFinished]) simp_all
  have kr: "isAllowed\<^sup>*\<^sup>* StateSendKeyReveal StateFinished"
    by (rule allowed_step [OF _ vm]) simp
  have lt: "isAllowed\<^sup>*\<^sup>* StateWaitingLotteryTicket StateFinished"
    by (rule allowed_step [OF _ kr]) simp
  have cr: "isAllowed\<^sup>*\<^sup>* StateSendChunkResponse StateFinished"
    by (rule allowed_step [OF _ lt]) simp
  have wr: "isAllowed\<^sup>*\<^sup>* StateWaitingChunkRequest StateFinished"
    by (rule allowed_step [OF _ cr]) simp
  have sh: "isAllowed\<^sup>*\<^sup>* StateSendHeader StateFinished"
    by (rule allowed_step [OF _ wr]) simp
  have vc: "isAllowed\<^sup>*\<^sup>* StateVerifyChunk StateFinished"
    by (rule allowed_step [OF _ vm]) simp
  have wk: "isAllowed\<^sup>*\<^sup>* StateWaitingKeyReveal StateFinished"
    by (rule allowed_step [OF _ vc]) simp
  have sl: "isAllowed\<^sup>*\<^sup>* StateSendLotteryTicket StateFinished"
    by (rule allowed_step [OF _ wk]) simp
  have wc: "isAllowed\<^sup>*\<^sup>* StateWaitingChunkResponse StateFinished"
    by (rule allowed_step [OF _ sl]) simp
  have sc: "isAllowed\<^sup>*\<^sup>* StateSendChunkRequest StateFinished"
    by (rule allowed_step [OF _ wc]) simp
  have rh: "isAllowed\<^sup>*\<^sup>* StateReceiveHeader StateFinished"
    by (rule allowed_step [OF _ sc]) simp
  have "isAllowed\<^sup>*\<^sup>* StateIdle StateFinished"
    by (rule allowed_step [OF _ sh]) simp
  with assms vm kr lt cr wr sh vc wk sl wc sc rh show ?thesis
    by (cases st) simp_all
qed

section \<open>The contract of a step table\<close>

text \<open>
  \<open>inv s m\<close> relates a session at the head of the loop to the state of a monitor (the ghost
  history of what was read and written). A table keeps the contract when it has a step for
  every state the invariant allows, and every step, in any environment, respects the
  monitor, leaves the state field to the loop, and returns either an error or an allowed next
  state in which the invariant holds again and the measure has dropped.
\<close>

definition step_post ::
  "(Session \<Rightarrow> 'm \<Rightarrow> bool) \<Rightarrow> (Session \<Rightarrow> nat) \<Rightarrow> Session \<Rightarrow> Session \<times> TransferState go_result \<Rightarrow> 'm \<Rightarrow> bool"
where
  "step_post I rank s x m \<longleftrightarrow>
     (case snd x of
        Inl e \<Rightarrow> True
      | Inr next \<Rightarrow> s_state (fst x) = s_state s \<and> isAllowed (s_state s) next \<and>
          I ((fst x)\<lparr>s_state := next\<rparr>) m \<and> rank ((fst x)\<lparr>s_state := next\<rparr>) < rank s)"

lemma step_post_simps [simp]:
  "step_post I rank s (s', Inl e) m"
  "step_post I rank s (s', Inr next) m \<longleftrightarrow>
     s_state s' = s_state s \<and> isAllowed (s_state s) next \<and>
     I (s'\<lparr>s_state := next\<rparr>) m \<and> rank (s'\<lparr>s_state := next\<rparr>) < rank s"
  by (simp_all add: step_post_def)

locale step_table =
  fixes steps :: StepTable
    and mon :: "'m \<Rightarrow> event \<Rightarrow> 'm option"
    and inv :: "Session \<Rightarrow> 'm \<Rightarrow> bool"
    and rank :: "Session \<Rightarrow> nat"
  assumes covered: "inv s m \<Longrightarrow> s_state s \<noteq> StateFinished \<Longrightarrow> \<exists>step. steps (s_state s) = Some step"
    and no_error: "inv s m \<Longrightarrow> s_state s \<noteq> StateError"
    and step_ok: "inv s m \<Longrightarrow> s_state s \<noteq> StateFinished \<Longrightarrow> steps (s_state s) = Some step \<Longrightarrow>
      wp mon (step s) (step_post inv rank s) m"
    and log_free: "mon m (QLogf fmt args, r) = Some m"
begin

lemma log_wp: "wph X mon (Logf fmt args) Q m = Q () m"
  by (simp add: Logf_def log_free)

text \<open>
  After a step that kept the contract the rest of the iteration reaches the next head of the loop,
  with the invariant, or gives up.
\<close>

lemma run_next_wp:
  assumes "step_post inv rank s x m"
    and err: "\<And>s' e. Q (Returned (s'\<lparr>s_state := StateError\<rparr>)
      (Some (Errorf ''step %s failed: %w'' [AStr (state_String (s_state s)), AErr e]))) m"
    and go: "\<And>s'. inv s' m \<Longrightarrow> rank s' < rank s \<Longrightarrow> wp mon (Run fuel s' steps) Q m"
  shows "wp mon (run_next fuel steps (s_state s) x) Q m"
  using assms(1)
  by (auto simp: run_next_def step_post_def run_fail_eq Transition_def wp_bind log_wp err
      intro!: go split: sum.splits)

text \<open>
  What the loop returns: it finished, with the invariant, or a step reported an error. It runs
  out of fuel only if the fuel was not more than the measure.
\<close>

definition run_post :: "bool \<Rightarrow> run_result \<Rightarrow> 'm \<Rightarrow> bool" where
  "run_post short res m \<longleftrightarrow>
     (case res of
        OutOfFuel \<Rightarrow> short
      | Returned s None \<Rightarrow> s_state s = StateFinished \<and> inv s m
      | Returned s (Some err) \<Rightarrow> s_state s = StateError \<and>
          (\<exists>st e. err = Errorf ''step %s failed: %w'' [AStr (state_String st), AErr e]))"

lemma run_post_weaken: "run_post short res m \<Longrightarrow> (short \<Longrightarrow> short') \<Longrightarrow> run_post short' res m"
  by (auto simp: run_post_def split: run_result.splits)

lemma run_wp: "inv s m \<Longrightarrow> wp mon (Run fuel s steps) (run_post (fuel \<le> rank s)) m"
proof (induction fuel arbitrary: s m)
  case 0
  then show ?case by (simp add: run_post_def)
next
  case (Suc fuel)
  show ?case
  proof (cases "s_state s = StateFinished")
    case True
    then show ?thesis using Suc.prems by (simp add: Run_Suc run_post_def)
  next
    case False
    obtain step where step: "steps (s_state s) = Some step"
      using covered [OF Suc.prems False] by blast
    let ?post = "run_post (Suc fuel \<le> rank s)"
    have "wp mon (Run fuel s' steps) ?post m'" if "inv s' m'" "rank s' < rank s" for s' m'
      using that(2) by (intro wp_mono [OF Suc.IH [OF that(1)]]) (auto elim!: run_post_weaken)
    then have "wp mon (step s) (\<lambda>x. wp mon (run_next fuel steps (s_state s) x) ?post) m"
      by (intro wp_mono [OF step_ok [OF Suc.prems False step]] run_next_wp)
        (auto simp: run_post_def)
    then show ?thesis using False no_error [OF Suc.prems] step by (simp add: Run_Suc wp_bind)
  qed
qed

end

section \<open>Properties of the session and the loop\<close>

text \<open>The transition table separates the roles. A session that has taken the sender's first
  transition stays in the sender's states, one that has taken the receiver's in the receiver's; the
  only states the two have in common are the Merkle check and the end.\<close>

lemma roles_separate:
  "(isAllowed\<^sup>*\<^sup>* StateSendHeader st \<longrightarrow> sender_state st) \<and>
   (isAllowed\<^sup>*\<^sup>* StateReceiveHeader st \<longrightarrow> receiver_state st) \<and>
   (sender_state st \<and> receiver_state st \<longrightarrow> st = StateVerifyMerkle \<or> st = StateFinished)"
  using sender_state_closed_star [of StateSendHeader st] receiver_state_closed_star [of StateReceiveHeader st]
  by (cases st) auto

text \<open>No state of the table is a trap: from every state but the error state the end can be
  reached by allowed transitions, and the end and the error state are the only ones without a
  successor.\<close>

lemma no_trap_states:
  "(isAllowed\<^sup>*\<^sup>* st StateFinished \<longleftrightarrow> st \<noteq> StateError) \<and>
   ((\<exists>next. isAllowed st next) \<longleftrightarrow> st \<notin> {StateFinished, StateError})"
proof
  have "\<not> isAllowed\<^sup>*\<^sup>* StateError StateFinished"
    by (auto elim: converse_rtranclpE simp: isAllowed_iff)
  then show "isAllowed\<^sup>*\<^sup>* st StateFinished \<longleftrightarrow> st \<noteq> StateError"
    using finish_reachable_from by blast
  show "(\<exists>next. isAllowed st next) \<longleftrightarrow> st \<notin> {StateFinished, StateError}"
    by (cases st) (auto simp: isAllowed_iff)
qed

text \<open>
  \<^verbatim>\<open>Transition\<close> changes the state field and nothing else when the table allows the step, after one line
  in the log, and otherwise reports the two states by name, with no line; the line and the error name
  the two states uniquely.
\<close>

lemma Transition_result:
  "exec (Transition s next) es = Some (Ret res) \<Longrightarrow>
     (if next \<in> set (validTransitions (s_state s))
      then res = Inr (s\<lparr>s_state := next\<rparr>) \<and> (\<exists>r. es = [(QLogf ''[Chunk %d/%d] %s -> %s''
        [AU32 (s_CurrentChunk s + 1), AU32 (s_TotalChunks s),
         AStr (state_String (s_state s)), AStr (state_String next)], r)])
      else es = [] \<and> res = Inl (Errorf ''illegal transition %s -> %s''
        [AStr (state_String (s_state s)), AStr (state_String next)]))"
  by (auto simp: Transition_def isAllowed_iff Logf_def exec_Act_Ret exec_Ret_Ret split: if_splits)

text \<open>
  What \<^verbatim>\<open>Run\<close> guarantees for any step table: a nil error means the session finished, and a session
  it gives back with an error is in the error state.
\<close>

definition run_settled :: "run_result \<Rightarrow> bool" where
  "run_settled res \<longleftrightarrow>
     (case res of
        OutOfFuel \<Rightarrow> True
      | Returned s err \<Rightarrow> s_state s = (if err = None then StateFinished else StateError))"

lemma run_settled_Returned:
  "run_settled (Returned s err) \<longleftrightarrow> s_state s = (if err = None then StateFinished else StateError)"
  by (simp add: run_settled_def)

lemma wph_any: "(\<And>x. Q x ()) \<Longrightarrow> wph (\<lambda>_ _. True) (\<lambda>_ _. Some ()) p Q ()"
  by (induction p) simp_all

lemma Run_settled_wp:
  "wph (\<lambda>_ _. True) (\<lambda>_ _. Some ()) (Run fuel s steps) (\<lambda>res _. run_settled res) ()"
proof (induction fuel arbitrary: s)
  case (Suc fuel)
  let ?wp = "wph (\<lambda>_ _. True) (\<lambda>_ _. Some ())"
  have step: "?wp (io_bind (step s) f) (\<lambda>res _. run_settled res) ()"
    if "\<And>x. ?wp (f x) (\<lambda>res _. run_settled res) ()" for step :: Step and f
    unfolding wp_bind by (rule wph_any) (rule that)
  show ?case
    by (auto simp: Run_Suc run_next_def Transition_def run_settled_Returned run_fail_eq Logf_def Suc.IH
        intro!: step split: option.split sum.split)
qed (simp add: run_settled_def)

text \<open>For every step table and every environment: when \<^verbatim>\<open>Run\<close> returns, the error it returns is
  nil exactly if the session it leaves is in the state \<^verbatim>\<open>Finished\<close>, and otherwise the session is in
  the state \<^verbatim>\<open>Error\<close>.\<close>

lemma Run_result:
  assumes "exec (Run fuel s steps) es = Some (Ret (Returned s' err))"
  shows "s_state s' = (if err = None then StateFinished else StateError)"
  using wp_exec_Ret [OF Run_settled_wp assms] by (simp add: run_settled_def)

end
