(* ===== verification/AES_GCM.thy ===== *)
theory AES_GCM
  imports Go_Prelude
begin

text \<open>
  The part of Go's \<^verbatim>\<open>crypto/aes\<close> and \<^verbatim>\<open>crypto/cipher\<close> the program uses: the AES block cipher
  (FIPS 197) and Galois/Counter Mode with a 12-byte nonce, a 16-byte tag and no additional
  data (NIST SP 800-38D). \<open>gcm_Seal\<close> and \<open>gcm_Open\<close> are the methods of the AEAD that
  \<^verbatim>\<open>cipher.NewGCM\<close> returns. The locale \<open>aead\<close> is what the rest of the development relies on.
\<close>

unbundle bit_operations_syntax

section \<open>The AES block cipher\<close>

definition sbox :: "byte list" where
  "sbox = [
    0x63, 0x7c, 0x77, 0x7b, 0xf2, 0x6b, 0x6f, 0xc5, 0x30, 0x01, 0x67, 0x2b, 0xfe, 0xd7, 0xab, 0x76,
    0xca, 0x82, 0xc9, 0x7d, 0xfa, 0x59, 0x47, 0xf0, 0xad, 0xd4, 0xa2, 0xaf, 0x9c, 0xa4, 0x72, 0xc0,
    0xb7, 0xfd, 0x93, 0x26, 0x36, 0x3f, 0xf7, 0xcc, 0x34, 0xa5, 0xe5, 0xf1, 0x71, 0xd8, 0x31, 0x15,
    0x04, 0xc7, 0x23, 0xc3, 0x18, 0x96, 0x05, 0x9a, 0x07, 0x12, 0x80, 0xe2, 0xeb, 0x27, 0xb2, 0x75,
    0x09, 0x83, 0x2c, 0x1a, 0x1b, 0x6e, 0x5a, 0xa0, 0x52, 0x3b, 0xd6, 0xb3, 0x29, 0xe3, 0x2f, 0x84,
    0x53, 0xd1, 0x00, 0xed, 0x20, 0xfc, 0xb1, 0x5b, 0x6a, 0xcb, 0xbe, 0x39, 0x4a, 0x4c, 0x58, 0xcf,
    0xd0, 0xef, 0xaa, 0xfb, 0x43, 0x4d, 0x33, 0x85, 0x45, 0xf9, 0x02, 0x7f, 0x50, 0x3c, 0x9f, 0xa8,
    0x51, 0xa3, 0x40, 0x8f, 0x92, 0x9d, 0x38, 0xf5, 0xbc, 0xb6, 0xda, 0x21, 0x10, 0xff, 0xf3, 0xd2,
    0xcd, 0x0c, 0x13, 0xec, 0x5f, 0x97, 0x44, 0x17, 0xc4, 0xa7, 0x7e, 0x3d, 0x64, 0x5d, 0x19, 0x73,
    0x60, 0x81, 0x4f, 0xdc, 0x22, 0x2a, 0x90, 0x88, 0x46, 0xee, 0xb8, 0x14, 0xde, 0x5e, 0x0b, 0xdb,
    0xe0, 0x32, 0x3a, 0x0a, 0x49, 0x06, 0x24, 0x5c, 0xc2, 0xd3, 0xac, 0x62, 0x91, 0x95, 0xe4, 0x79,
    0xe7, 0xc8, 0x37, 0x6d, 0x8d, 0xd5, 0x4e, 0xa9, 0x6c, 0x56, 0xf4, 0xea, 0x65, 0x7a, 0xae, 0x08,
    0xba, 0x78, 0x25, 0x2e, 0x1c, 0xa6, 0xb4, 0xc6, 0xe8, 0xdd, 0x74, 0x1f, 0x4b, 0xbd, 0x8b, 0x8a,
    0x70, 0x3e, 0xb5, 0x66, 0x48, 0x03, 0xf6, 0x0e, 0x61, 0x35, 0x57, 0xb9, 0x86, 0xc1, 0x1d, 0x9e,
    0xe1, 0xf8, 0x98, 0x11, 0x69, 0xd9, 0x8e, 0x94, 0x9b, 0x1e, 0x87, 0xe9, 0xce, 0x55, 0x28, 0xdf,
    0x8c, 0xa1, 0x89, 0x0d, 0xbf, 0xe6, 0x42, 0x68, 0x41, 0x99, 0x2d, 0x0f, 0xb0, 0x54, 0xbb, 0x16]"

definition sub_byte :: "byte \<Rightarrow> byte" where
  "sub_byte b = sbox ! unat b"

definition xtime :: "byte \<Rightarrow> byte" where
  "xtime b = (if bit b 7 then push_bit 1 b XOR 0x1b else push_bit 1 b)"

definition xor_bytes :: "bytes \<Rightarrow> bytes \<Rightarrow> bytes" where
  "xor_bytes xs ys = map2 (XOR) xs ys"

text \<open>
  The key schedule works on four-byte words; \<open>nk\<close> is the key length in words (4, 6 or 8).
\<close>

definition next_key_word :: "nat \<Rightarrow> bytes list \<Rightarrow> bytes" where
  "next_key_word nk ws =
     (let i = length ws; t = last ws;
          t' = (if i mod nk = 0
                then xor_bytes (map sub_byte (rotate1 t)) [(xtime ^^ (i div nk - 1)) 1, 0, 0, 0]
                else if 6 < nk \<and> i mod nk = 4 then map sub_byte t else t)
      in xor_bytes (ws ! (i - nk)) t')"

primrec expand_key :: "nat \<Rightarrow> nat \<Rightarrow> bytes list \<Rightarrow> bytes list" where
  "expand_key nk 0 ws = ws"
| "expand_key nk (Suc n) ws = expand_key nk n (ws @ [next_key_word nk ws])"

definition key_words :: "bytes \<Rightarrow> bytes list" where
  "key_words key = map (\<lambda>i. take 4 (drop (4 * i) key)) [0..<length key div 4]"

definition round_keys :: "bytes \<Rightarrow> bytes" where
  "round_keys key =
     (let nk = length key div 4 in concat (expand_key nk (4 * (nk + 7) - nk) (key_words key)))"

text \<open>The state is the sequence of its 16 bytes, column by column, as it arrives.\<close>

definition add_round_key :: "bytes \<Rightarrow> nat \<Rightarrow> bytes \<Rightarrow> bytes" where
  "add_round_key rk n st = map (\<lambda>i. st ! i XOR rk ! (16 * n + i)) [0..<16]"

definition shift_rows :: "bytes \<Rightarrow> bytes" where
  "shift_rows st = map (\<lambda>i. st ! ((i + 4 * (i mod 4)) mod 16)) [0..<16]"

definition mix_columns :: "bytes \<Rightarrow> bytes" where
  "mix_columns st = map (\<lambda>i.
     let c = 4 * (i div 4);
         a0 = st ! (c + i mod 4); a1 = st ! (c + (i + 1) mod 4);
         a2 = st ! (c + (i + 2) mod 4); a3 = st ! (c + (i + 3) mod 4)
     in xtime a0 XOR (xtime a1 XOR a1) XOR a2 XOR a3) [0..<16]"

definition aes_round :: "bytes \<Rightarrow> bytes \<Rightarrow> nat \<Rightarrow> bytes" where
  "aes_round rk st n = add_round_key rk n (mix_columns (shift_rows (map sub_byte st)))"

definition aes_encrypt :: "bytes \<Rightarrow> bytes \<Rightarrow> bytes" where
  "aes_encrypt key block =
     (let rk = round_keys key; nr = length key div 4 + 6;
          st = foldl (aes_round rk) (add_round_key rk 0 block) [1..<nr]
      in add_round_key rk nr (shift_rows (map sub_byte st)))"

text \<open>\<^verbatim>\<open>aes.NewCipher\<close> accepts keys of 16, 24 and 32 bytes.\<close>

definition aes_key_ok :: "bytes \<Rightarrow> bool" where
  "aes_key_ok key \<longleftrightarrow> length key \<in> {16, 24, 32}"

section \<open>Galois/Counter Mode\<close>

text \<open>Blocks as elements of the field, the first bit of the block being the coefficient of 1.\<close>

definition block_word :: "bytes \<Rightarrow> 128 word" where
  "block_word b = foldl (\<lambda>w x. push_bit 8 w OR ucast x) 0 b"

definition word_block :: "128 word \<Rightarrow> bytes" where
  "word_block w = map (\<lambda>i. ucast (drop_bit (8 * i) w)) (rev [0..<16])"

primrec gf_mul_loop :: "nat \<Rightarrow> 128 word \<Rightarrow> 128 word \<Rightarrow> 128 word \<Rightarrow> 128 word" where
  "gf_mul_loop 0 x v z = z"
| "gf_mul_loop (Suc i) x v z =
     gf_mul_loop i x
       (if bit v 0 then drop_bit 1 v XOR push_bit 120 0xe1 else drop_bit 1 v)
       (if bit x i then z XOR v else z)"

definition gf_mul :: "128 word \<Rightarrow> 128 word \<Rightarrow> 128 word" where
  "gf_mul x y = gf_mul_loop 128 x y 0"

definition ghash :: "128 word \<Rightarrow> 128 word list \<Rightarrow> 128 word" where
  "ghash h = foldl (\<lambda>y b. gf_mul (y XOR b) h) 0"

definition blocks_of :: "bytes \<Rightarrow> bytes list" where
  "blocks_of d = map (\<lambda>i. take 16 (drop (16 * i) d)) [0..<(length d + 15) div 16]"

definition pad_block :: "bytes \<Rightarrow> bytes" where
  "pad_block b = b @ replicate (16 - length b) 0"

definition counter_block :: "bytes \<Rightarrow> nat \<Rightarrow> bytes" where
  "counter_block nonce i = nonce @ PutUint32 (word_of_nat i)"

definition gcm_tag :: "bytes \<Rightarrow> bytes \<Rightarrow> bytes \<Rightarrow> bytes" where
  "gcm_tag key nonce ct =
     (let h = block_word (aes_encrypt key (replicate 16 0));
          s = ghash h (map (block_word \<circ> pad_block) (blocks_of ct) @
                [word_of_nat (8 * length ct)])
      in xor_bytes (word_block s) (aes_encrypt key (counter_block nonce 1)))"

definition gcm_ctr :: "bytes \<Rightarrow> bytes \<Rightarrow> bytes \<Rightarrow> bytes" where
  "gcm_ctr key nonce d =
     xor_bytes d (concat (map (\<lambda>i. aes_encrypt key (counter_block nonce (i + 2)))
       [0..<(length d + 15) div 16]))"

text \<open>
  \<^verbatim>\<open>Seal\<close> and \<^verbatim>\<open>Open\<close> for a nonce of the standard size (any other size is a panic in Go; the
  callers test for it). \<open>gcm_Open\<close> returns \<open>None\<close> for Go's \<^verbatim>\<open>errOpen\<close>.
\<close>

definition gcm_Seal :: "bytes \<Rightarrow> bytes \<Rightarrow> bytes \<Rightarrow> bytes" where
  "gcm_Seal key nonce plaintext =
     (let ct = gcm_ctr key nonce plaintext in ct @ gcm_tag key nonce ct)"

definition gcm_Open :: "bytes \<Rightarrow> bytes \<Rightarrow> bytes \<Rightarrow> bytes option" where
  "gcm_Open key nonce sealed =
     (if length sealed < 16 \<or> (2 ^ 32 - 2) * 16 + 16 < length sealed then None
      else let n = length sealed - 16; ct = take n sealed; tag = drop n sealed
           in if tag = gcm_tag key nonce ct then Some (gcm_ctr key nonce ct) else None)"

section \<open>Correctness of the mode\<close>

lemma length_xor_bytes [simp]: "length (xor_bytes xs ys) = min (length xs) (length ys)"
  by (simp add: xor_bytes_def)

lemma xor_bytes_cancel: "length xs \<le> length ys \<Longrightarrow> xor_bytes (xor_bytes xs ys) ys = xs"
  by (induction xs ys rule: list_induct2')
    (auto simp: xor_bytes_def xor.assoc)

lemma length_aes_encrypt [simp]: "length (aes_encrypt key block) = 16"
  by (simp add: aes_encrypt_def add_round_key_def Let_def)

lemma length_gcm_tag [simp]: "length (gcm_tag key nonce ct) = 16"
  by (simp add: gcm_tag_def word_block_def Let_def)

lemma length_concat_blocks:
  "length (concat (map (\<lambda>i. aes_encrypt key (f i)) xs)) = 16 * length xs"
  by (induction xs) simp_all

lemma length_gcm_ctr [simp]: "length (gcm_ctr key nonce d) = length d"
  by (simp add: gcm_ctr_def length_concat_blocks)

lemma gcm_ctr_ctr: "gcm_ctr key nonce (gcm_ctr key nonce d) = d"
proof -
  let ?ks = "concat (map (\<lambda>i. aes_encrypt key (counter_block nonce (i + 2)))
       [0..<(length d + 15) div 16])"
  have "length d \<le> length ?ks" by (simp add: length_concat_blocks)
  then have "xor_bytes (xor_bytes d ?ks) ?ks = d" by (rule xor_bytes_cancel)
  moreover have "length (xor_bytes d ?ks) = length d"
    by (simp add: length_concat_blocks)
  ultimately show ?thesis by (simp add: gcm_ctr_def)
qed

text \<open>
  The interface of an authenticated cipher: what the sender seals under a key and a nonce,
  the receiver opens under the same key and nonce, and only the ciphertext that sealing the
  result again would give is accepted.
\<close>

locale aead =
  fixes seal :: "bytes \<Rightarrow> bytes \<Rightarrow> bytes \<Rightarrow> bytes"
    and opn :: "bytes \<Rightarrow> bytes \<Rightarrow> bytes \<Rightarrow> bytes option"
    and overhead :: nat
    and limit :: nat
  assumes length_seal: "length (seal k n p) = length p + overhead"
    and open_seal: "length p \<le> limit \<Longrightarrow> opn k n (seal k n p) = Some p"
    and open_sound: "opn k n c = Some p \<Longrightarrow> c = seal k n p"
begin

lemma open_length: "opn k n c = Some p \<Longrightarrow> length c = length p + overhead"
  using open_sound length_seal by blast

lemma seal_inject: "length p \<le> limit \<Longrightarrow> length p' \<le> limit \<Longrightarrow> seal k n p = seal k n p' \<Longrightarrow> p = p'"
  by (metis open_seal option.inject)

text \<open>Under one key and nonce, two ciphertexts that open to the same plaintext are equal.\<close>

lemma open_inject: "opn k n c = Some p \<Longrightarrow> opn k n c' = Some p \<Longrightarrow> c = c'"
  by (blast dest: open_sound)

end

interpretation gcm: aead gcm_Seal gcm_Open 16 "(2 ^ 32 - 2) * 16"
proof
  show "length (gcm_Seal k n p) = length p + 16" for k n p
    by (simp add: gcm_Seal_def Let_def)
  show "gcm_Open k n (gcm_Seal k n p) = Some p" if "length p \<le> (2 ^ 32 - 2) * 16" for k n p
    using that by (simp add: gcm_Open_def gcm_Seal_def gcm_ctr_ctr Let_def)
  show "c = gcm_Seal k n p" if "gcm_Open k n c = Some p" for k n c p
  proof -
    let ?ct = "take (length c - 16) c"
    from that have tag: "drop (length c - 16) c = gcm_tag k n ?ct" and p: "p = gcm_ctr k n ?ct"
      by (auto simp: gcm_Open_def Let_def split: if_splits)
    have "c = ?ct @ drop (length c - 16) c" by simp
    then show ?thesis by (simp add: gcm_Seal_def Let_def p gcm_ctr_ctr tag)
  qed
qed

end
