(* ===== verification/Utils.thy ===== *)
theory Utils
  imports Protocol AES_GCM
begin

text \<open>
  Package \<^verbatim>\<open>utils\<close> (\<^verbatim>\<open>src/Utils/utils.go\<close>): the hash, the per-chunk key, encryption, and the
  decryption with its commitment check. The Keccak-256 sponge of \<^verbatim>\<open>golang.org/x/crypto/sha3\<close>
  is the parameter \<open>H\<close> of every definition that hashes: the digest of a byte sequence.
\<close>

type_synonym digest = "bytes \<Rightarrow> bytes"

text \<open>\<^verbatim>\<open>hasher.Write\<close> appends to the message that \<^verbatim>\<open>hasher.Sum(nil)\<close> digests.\<close>

definition Keccak :: "digest \<Rightarrow> bytes list \<Rightarrow> bytes" where
  "Keccak H data = H (foldl (\<lambda>written d. written @ d) [] data)"

definition GenerateRandomKey :: "bytes go_result io" where
  "GenerateRandomKey = io_try (RandRead KeySize) Inl (\<lambda>key. Ret (Inr key))"

definition ComputeResponseCommitment :: "digest \<Rightarrow> Chunk \<Rightarrow> bytes" where
  "ComputeResponseCommitment H chunk = Keccak H [c_Key chunk, c_Plaintext chunk]"

text \<open>
  \<^verbatim>\<open>cipher.NewGCM\<close> fails only for block sizes other than 16, which AES does not have. \<^verbatim>\<open>Seal\<close>
  panics on a message longer than the counter allows.
\<close>

definition gcm_limit :: nat where
  "gcm_limit = (2 ^ 32 - 2) * 16"

definition EncryptChunk :: "Chunk \<Rightarrow> Chunk go_result io" where
  "EncryptChunk chunk =
     (if \<not> aes_key_ok (c_Key chunk) then Ret (Inl (KeySizeError (length (c_Key chunk))))
      else io_try (RandRead NonceSize) Inl (\<lambda>nonce.
        let chunk = chunk\<lparr>c_Nonce := nonce\<rparr> in
        if gcm_limit < length (c_Plaintext chunk)
        then Halt (Panic ''crypto/cipher: message too large for GCM'')
        else let ciphertext = gcm_Seal (c_Key chunk) nonce (c_Plaintext chunk)
             in Ret (Inr (chunk\<lparr>c_Ciphertext := ciphertext\<rparr>))))"

definition bytesEqual :: "bytes \<Rightarrow> bytes \<Rightarrow> bool" where
  "bytesEqual a b \<longleftrightarrow> a = b"

text \<open>
  The chunk is a pointer in the source: the decrypted plaintext is stored in it before the
  commitment is checked, so the chunk is returned with every result.
\<close>

definition DecryptAndCheck :: "digest \<Rightarrow> Chunk \<Rightarrow> (Chunk \<times> bytes go_result) io" where
  "DecryptAndCheck H chunk =
     (if \<not> aes_key_ok (c_Key chunk) then Ret (chunk, Inl (KeySizeError (length (c_Key chunk))))
      else if length (c_Nonce chunk) \<noteq> 12
        then Halt (Panic ''crypto/cipher: incorrect nonce length given to GCM'')
      else case gcm_Open (c_Key chunk) (c_Nonce chunk) (c_Ciphertext chunk) of
        None \<Rightarrow> Ret (chunk, Inl GCMAuthError)
      | Some plaintext \<Rightarrow>
          let chunk = chunk\<lparr>c_Plaintext := plaintext\<rparr>;
              gotCommitment = ComputeResponseCommitment H chunk
          in if \<not> bytesEqual gotCommitment (c_HResp chunk)
             then Ret (chunk, Inl (Errorf ''H_resp mismatch on chunk %d: sender revealed a key/plaintext that doesn't match its earlier commitment (got %x, want %x)''
                    [AU32 (c_Index chunk), AHex gotCommitment, AHex (c_HResp chunk)]))
             else Ret (chunk, Inr plaintext))"

section \<open>Lemmas\<close>

lemma foldl_append_concat: "foldl (\<lambda>written d. written @ d) acc data = acc @ concat data"
  by (induction data arbitrary: acc) simp_all

lemma Keccak_eq: "Keccak H data = H (concat data)"
  by (simp add: Keccak_def foldl_append_concat)

lemma length_Keccak: "(\<And>x. length (H x) = HashSize) \<Longrightarrow> length (Keccak H data) = HashSize"
  by (simp add: Keccak_eq)

lemma gcm_roundtrip: "length p \<le> gcm_limit \<Longrightarrow> gcm_Open k n (gcm_Seal k n p) = Some p"
  by (simp add: gcm_limit_def gcm.open_seal)

text \<open>\<open>DecryptAndCheck\<close> accepts exactly the chunks whose commitment matches what they open to.\<close>

lemma DecryptAndCheck_accepts:
  "DecryptAndCheck H c = Ret (c', Inr p) \<longleftrightarrow>
     aes_key_ok (c_Key c) \<and> length (c_Nonce c) = NonceSize \<and>
     gcm_Open (c_Key c) (c_Nonce c) (c_Ciphertext c) = Some p \<and>
     H (c_Key c @ p) = c_HResp c \<and> c' = c\<lparr>c_Plaintext := p\<rparr>"
  by (auto simp: DecryptAndCheck_def ComputeResponseCommitment_def Keccak_eq bytesEqual_def
      Let_def split: option.splits)

lemma DecryptAndCheck_wp:
  "length (c_Nonce c) = NonceSize \<Longrightarrow>
   (\<And>c' e. Q (c', Inl e) m) \<Longrightarrow>
   (\<And>p. gcm_Open (c_Key c) (c_Nonce c) (c_Ciphertext c) = Some p \<Longrightarrow> H (c_Key c @ p) = c_HResp c \<Longrightarrow>
      Q (c\<lparr>c_Plaintext := p\<rparr>, Inr p) m) \<Longrightarrow>
   wph X \<delta> (DecryptAndCheck H c) Q m"
  by (simp add: DecryptAndCheck_def ComputeResponseCommitment_def Keccak_eq bytesEqual_def
      Let_def split: option.split)

text \<open>C24: a chunk response binds its sender. If two keys of the same length are both accepted for
  the same response (the same nonce, ciphertext and commitment), then they are the same key and open
  to the same plaintext, or the two committed messages are a collision of the digest.\<close>

theorem commitment_binds:
  assumes "DecryptAndCheck H (c\<lparr>c_Key := k\<rparr>) = Ret (c1, Inr p)"
    and "DecryptAndCheck H (c\<lparr>c_Key := k'\<rparr>) = Ret (c2, Inr p')" and "length k = length k'"
  shows "k = k' \<and> p = p' \<or> k @ p \<noteq> k' @ p' \<and> H (k @ p) = H (k' @ p')"
  using assms unfolding DecryptAndCheck_accepts by auto

end
