(* ===== verification/Wire.thy ===== *)
theory Wire
  imports Utils
begin

text \<open>
  Package \<^verbatim>\<open>chunk\<close> (\<^verbatim>\<open>src/Chunk/chunk.go\<close>): the messages of the transfer protocol on the wire
  and the sender's helpers. Every message has a sender function, which builds one buffer and
  hands it to \<^verbatim>\<open>Write\<close>, and a reader, which checks the sentinel and then reads field by field.
  The locale \<open>wire_message\<close> is the contract of such a pair.
\<close>

section \<open>Sentinels\<close>

abbreviation (input) msgHeader :: byte where "msgHeader \<equiv> 0x01"
abbreviation (input) msgChunkRequest :: byte where "msgChunkRequest \<equiv> 0x02"
abbreviation (input) msgChunkResponse :: byte where "msgChunkResponse \<equiv> 0x03"
abbreviation (input) msgLotteryTicket :: byte where "msgLotteryTicket \<equiv> 0x04"
abbreviation (input) msgKeyReveal :: byte where "msgKeyReveal \<equiv> 0x05"
abbreviation (input) msgMerkleRoot :: byte where "msgMerkleRoot \<equiv> 0x06"
abbreviation (input) msgFinalAck :: byte where "msgFinalAck \<equiv> 0x07"

definition readSentinel :: "byte \<Rightarrow> string \<Rightarrow> unit go_result io" where
  "readSentinel want what =
     io_try (ReadFull 1) (\<lambda>e. Inl (Errorf ''reading %s sentinel: %w'' [AStr what, AErr e])) (\<lambda>b.
       if b ! 0 \<noteq> want
       then Ret (Inl (Errorf ''expected %s (0x%02x), got 0x%02x'' [AStr what, AByte want, AByte (b ! 0)]))
       else Ret (Inr ()))"

section \<open>Header\<close>

definition HeaderBytes :: "MetaData \<Rightarrow> bytes" where
  "HeaderBytes header =
     (let buf = [msgHeader];
          buf = buf @ PutUint32 (h_Reps header);
          buf = buf @ h_FileID header;
          buf = buf @ PutUint32 (word_of_nat (length (h_Name header)));
          buf = buf @ str_bytes (h_Name header)
      in buf @ PutUint32 (h_FileSize header))"

definition SendHeader :: "MetaData \<Rightarrow> unit go_result io" where
  "SendHeader header = ConnWrite (HeaderBytes header)"

definition ReadHeader :: "MetaData go_result io" where
  "ReadHeader =
     io_try (readSentinel msgHeader ''header'') Inl (\<lambda>_.
     io_try (ReadFull 4) (\<lambda>e. Inl (Errorf ''reading reps: %w'' [AErr e])) (\<lambda>buf.
     let reps = Uint32 buf in
     io_try (ReadFull HashSize) (\<lambda>e. Inl (Errorf ''reading fileID: %w'' [AErr e])) (\<lambda>fileID.
     io_try (ReadFull 4) (\<lambda>e. Inl (Errorf ''reading name length: %w'' [AErr e])) (\<lambda>buf.
     io_try (ReadFull (unat (Uint32 buf))) (\<lambda>e. Inl (Errorf ''reading name: %w'' [AErr e])) (\<lambda>nameBuf.
     io_try (ReadFull 4) (\<lambda>e. Inl (Errorf ''reading filesize: %w'' [AErr e])) (\<lambda>buf.
     Ret (Inr \<lparr>h_Name = bytes_str nameBuf, h_FileSize = Uint32 buf, h_Reps = reps,
               h_FileID = fileID\<rparr>)))))))"

section \<open>Chunk request\<close>

definition ChunkRequestBytes :: "u32 \<Rightarrow> bytes" where
  "ChunkRequestBytes index = [msgChunkRequest] @ PutUint32 index"

definition SendChunkRequest :: "u32 \<Rightarrow> unit go_result io" where
  "SendChunkRequest index = ConnWrite (ChunkRequestBytes index)"

definition ReadChunkRequest :: "u32 go_result io" where
  "ReadChunkRequest =
     io_try (readSentinel msgChunkRequest ''chunk request'') Inl (\<lambda>_.
     io_try (ReadFull 4) Inl (\<lambda>buf. Ret (Inr (Uint32 buf))))"

section \<open>Chunk response\<close>

definition ChunkResponseBytes :: "Chunk \<Rightarrow> bytes" where
  "ChunkResponseBytes c =
     (let buf = [msgChunkResponse];
          buf = buf @ PutUint32 (c_Index c);
          buf = buf @ PutUint32 (word_of_nat (length (c_Ciphertext c)));
          buf = buf @ c_Ciphertext c;
          buf = buf @ c_Nonce c
      in buf @ c_HResp c)"

definition SendChunkResponse :: "Chunk \<Rightarrow> unit go_result io" where
  "SendChunkResponse c = ConnWrite (ChunkResponseBytes c)"

definition ReadChunkResponse :: "bytes \<Rightarrow> Chunk go_result io" where
  "ReadChunkResponse fileID =
     io_try (readSentinel msgChunkResponse ''chunk response'') Inl (\<lambda>_.
     io_try (ReadFull 4) Inl (\<lambda>buf.
     let index = Uint32 buf in
     io_try (ReadFull 4) Inl (\<lambda>buf.
     io_try (ReadFull (unat (Uint32 buf))) Inl (\<lambda>ciphertext.
     io_try (ReadFull NonceSize) Inl (\<lambda>nonce.
     io_try (ReadFull HashSize) Inl (\<lambda>hresp.
     Ret (Inr \<lparr>c_FileID = fileID, c_Index = index, c_Length = word_of_nat (length ciphertext),
               c_Plaintext = [], c_Ciphertext = ciphertext, c_Key = [], c_Nonce = nonce,
               c_HResp = hresp, c_Leaf = []\<rparr>)))))))"

section \<open>Lottery ticket\<close>

definition LotteryTicketBytes :: "u32 \<Rightarrow> bytes" where
  "LotteryTicketBytes index = [msgLotteryTicket] @ PutUint32 index"

definition SendLotteryTicket :: "u32 \<Rightarrow> unit go_result io" where
  "SendLotteryTicket index = ConnWrite (LotteryTicketBytes index)"

definition ReadLotteryTicket :: "u32 go_result io" where
  "ReadLotteryTicket =
     io_try (readSentinel msgLotteryTicket ''lottery ticket'') Inl (\<lambda>_.
     io_try (ReadFull 4) Inl (\<lambda>buf. Ret (Inr (Uint32 buf))))"

section \<open>Key reveal\<close>

definition KeyRevealBytes :: "u32 \<Rightarrow> bytes \<Rightarrow> bytes" where
  "KeyRevealBytes index key = [msgKeyReveal] @ PutUint32 index @ key"

definition SendKeyReveal :: "u32 \<Rightarrow> bytes \<Rightarrow> unit go_result io" where
  "SendKeyReveal index key = ConnWrite (KeyRevealBytes index key)"

definition ReadKeyReveal :: "(u32 \<times> bytes) go_result io" where
  "ReadKeyReveal =
     io_try (readSentinel msgKeyReveal ''key reveal'') Inl (\<lambda>_.
     io_try (ReadFull 4) Inl (\<lambda>buf.
     let index = Uint32 buf in
     io_try (ReadFull KeySize) Inl (\<lambda>key. Ret (Inr (index, key)))))"

section \<open>Merkle root and final acknowledgement\<close>

definition RootBytes :: "bytes \<Rightarrow> bytes" where
  "RootBytes root = [msgMerkleRoot] @ root"

definition SendRoot :: "bytes \<Rightarrow> unit go_result io" where
  "SendRoot root = ConnWrite (RootBytes root)"

definition ReadRoot :: "bytes go_result io" where
  "ReadRoot =
     io_try (readSentinel msgMerkleRoot ''merkle root'') Inl (\<lambda>_.
     io_try (ReadFull HashSize) Inl (\<lambda>root. Ret (Inr root)))"

definition FinalAckBytes :: bytes where
  "FinalAckBytes = [msgFinalAck]"

definition SendFinalAck :: "unit go_result io" where
  "SendFinalAck = ConnWrite FinalAckBytes"

definition ReadFinalAck :: "unit go_result io" where
  "ReadFinalAck = readSentinel msgFinalAck ''final ack''"

section \<open>Helpers of the sender\<close>

text \<open>The offset is the product of two \<^verbatim>\<open>int64\<close> values.\<close>

definition ReadChunkPlaintext :: "string option \<Rightarrow> u32 \<Rightarrow> u32 \<Rightarrow> bytes go_result io" where
  "ReadChunkPlaintext file index chunkSize =
     io_bind (FileReadAt file (unat chunkSize) (sint (ucast chunkSize * ucast index :: u64)))
       (\<lambda>(buf, err). case err of
          None \<Rightarrow> Ret (Inr buf)
        | Some e \<Rightarrow> if e \<noteq> EOF then Ret (Inl e) else Ret (Inr buf))"

definition BuildAndEncryptChunk :: "digest \<Rightarrow> bytes \<Rightarrow> u32 \<Rightarrow> bytes \<Rightarrow> Chunk go_result io" where
  "BuildAndEncryptChunk H fileID index plaintext =
     (let c = NewChunk fileID index plaintext in
      io_try GenerateRandomKey
        (\<lambda>e. Inl (Errorf ''generating key for chunk %d: %w'' [AU32 index, AErr e])) (\<lambda>key.
      let c = c\<lparr>c_Key := key\<rparr> in
      io_try (EncryptChunk c)
        (\<lambda>e. Inl (Errorf ''encrypting chunk %d: %w'' [AU32 index, AErr e])) (\<lambda>c.
      Ret (Inr (c\<lparr>c_HResp := ComputeResponseCommitment H c\<rparr>)))))"

lemmas send_defs [wire_defs] =
  SendHeader_def SendChunkRequest_def SendChunkResponse_def SendLotteryTicket_def
  SendKeyReveal_def SendRoot_def SendFinalAck_def

lemmas msg_bytes_defs =
  HeaderBytes_def ChunkRequestBytes_def ChunkResponseBytes_def LotteryTicketBytes_def
  KeyRevealBytes_def RootBytes_def FinalAckBytes_def

lemma hd_msgs [simp]:
  "hd (HeaderBytes h) = msgHeader" "hd (ChunkResponseBytes c) = msgChunkResponse"
  "hd (KeyRevealBytes i k) = msgKeyReveal" "hd (RootBytes r) = msgMerkleRoot"
  "hd (ChunkRequestBytes i) = msgChunkRequest" "hd (LotteryTicketBytes i) = msgLotteryTicket"
  "hd FinalAckBytes = msgFinalAck"
  by (simp_all add: msg_bytes_defs Let_def)

lemmas read_defs =
  ReadHeader_def ReadChunkRequest_def ReadChunkResponse_def ReadLotteryTicket_def
  ReadKeyReveal_def ReadRoot_def ReadFinalAck_def readSentinel_def

lemma at_most_reads:
  "at_most ReadHeader 6" "at_most ReadChunkRequest 2" "at_most (ReadChunkResponse fileID) 6"
  "at_most ReadLotteryTicket 2" "at_most ReadKeyReveal 3" "at_most ReadRoot 2" "at_most ReadFinalAck 1"
  by (simp_all add: read_defs io_try_def ReadFull_def Let_def split: sum.split)

lemma at_most_ReadChunkPlaintext: "at_most (ReadChunkPlaintext f i k) 1"
  unfolding ReadChunkPlaintext_def by (rule at_most_then [of _ 1]) (auto split: option.split)

lemma at_most_BuildAndEncryptChunk: "at_most (BuildAndEncryptChunk H fileID i p) 2"
  by (simp add: BuildAndEncryptChunk_def GenerateRandomKey_def EncryptChunk_def io_try_def RandRead_def
      Let_def split: sum.split)

lemma at_most_DecryptAndCheck: "at_most (DecryptAndCheck H c) n"
  by (simp add: DecryptAndCheck_def Let_def split: option.split)

lemmas at_most_intros =
  at_most_reads [THEN at_most_try] at_most_ReadChunkPlaintext [THEN at_most_try]
  at_most_BuildAndEncryptChunk [THEN at_most_try]
  at_most_then [OF at_most_DecryptAndCheck, where m = 0] at_most_call

text \<open>Reading a message reads from the stream, making a chunk reads the file and the random source.\<close>

lemma avoids_readers [simp]:
  assumes "\<And>n. \<not> B (QRead n)"
  shows "avoids B (\<lambda>_. True) ReadHeader" "avoids B (\<lambda>_. True) ReadChunkRequest"
    "avoids B (\<lambda>_. True) (ReadChunkResponse fid)" "avoids B (\<lambda>_. True) ReadLotteryTicket"
    "avoids B (\<lambda>_. True) ReadKeyReveal" "avoids B (\<lambda>_. True) ReadRoot" "avoids B (\<lambda>_. True) ReadFinalAck"
  using assms unfolding read_defs Let_def by (auto intro!: avoids_try)

lemma avoids_chunks [simp]:
  "(\<And>p n off. \<not> B (QFReadAt p n off)) \<Longrightarrow> avoids B (\<lambda>_. True) (ReadChunkPlaintext f i n)"
  "(\<And>n. \<not> B (QRand n)) \<Longrightarrow> avoids B (\<lambda>_. True) (BuildAndEncryptChunk H fid i b)"
  "avoids B (\<lambda>_. True) (DecryptAndCheck H c)"
  unfolding ReadChunkPlaintext_def BuildAndEncryptChunk_def EncryptChunk_def GenerateRandomKey_def
    DecryptAndCheck_def Let_def
  by (auto intro!: avoids_try avoids_then split: option.split)

section \<open>Feeding a reader\<close>

text \<open>
  \<open>feed p b\<close> runs \<open>p\<close> on the bytes \<open>b\<close> that have arrived: every \<^verbatim>\<open>io.ReadFull\<close> that can be filled
  is, output is done, and the rest of the program is returned with the bytes not used when a read
  has to wait for more, or another request comes, or the program ends.
\<close>

primrec feed :: "'a io \<Rightarrow> bytes \<Rightarrow> 'a io \<times> bytes" where
  "feed (Ret x) b = (Ret x, b)"
| "feed (Halt h) b = (Halt h, b)"
| "feed (Act q k) b =
     (case q of
        QRead n \<Rightarrow> if n \<le> length b then feed (k (Reply None (take n b) 0)) (drop n b)
                   else (Act q k, b)
      | _ \<Rightarrow> if is_output q then feed (k (Reply None [] 0)) b else (Act q k, b))"

lemma feed_bind:
  "feed (io_bind p f) b =
     (case feed p b of (Ret x, r) \<Rightarrow> feed (f x) r | (p', r) \<Rightarrow> (io_bind p' f, r))"
  by (induction p arbitrary: b) (simp_all split: req.split)

lemma feed_ReadFull:
  "n \<le> length b \<Longrightarrow> feed (ReadFull n) b = (Ret (Inr (take n b)), drop n b)"
  by (simp add: ReadFull_def reply_bytes_def)

lemma feed_output:
  "feed (io_bind (Printf_nl fmt args) f) b = feed (f ()) b"
  "feed (io_bind (Println args) f) b = feed (f ()) b"
  "feed (io_bind (Logf fmt args) f) b = feed (f ()) b"
  "feed (io_bind (Logln args) f) b = feed (f ()) b"
  by (simp_all add: output_defs)

lemma feed_try:
  "feed p b = (Ret (Inr x), r) \<Longrightarrow> feed (io_try p h f) b = feed (f x) r"
  by (simp add: io_try_def feed_bind)

lemma feed_try_ReadFull:
  "n \<le> length b \<Longrightarrow> feed (io_try (ReadFull n) h f) b = feed (f (take n b)) (drop n b)"
  by (simp add: feed_try feed_ReadFull)

text \<open>More bytes never change what a reader that has finished made of the earlier ones.\<close>

lemma feed_Ret_append: "feed p b = (Ret x, r) \<Longrightarrow> feed p (b @ c) = (Ret x, r @ c)"
  by (induction p arbitrary: b) (auto split: req.splits if_splits)

text \<open>A reader that more bytes would let return is waiting in a read when it is short of them.\<close>

lemma feed_stuck:
  "feed p (b @ c) = (Ret x, r) \<Longrightarrow>
   (\<exists>y r'. feed p b = (Ret y, r')) \<or> (\<exists>n f b'. feed p b = (Act (QRead n) f, b') \<and> length b' < n)"
proof (induction p arbitrary: b)
  case (Act q k)
  show ?case
  proof (cases "is_output q")
    case True
    with Act.prems have "feed (k (Reply None [] 0)) (b @ c) = (Ret x, r)" by (cases q) auto
    from Act.IH [OF rangeI this] True show ?thesis by (cases q) auto
  next
    case False
    with Act.prems obtain n where q: "q = QRead n" and n: "n \<le> length b + length c"
      and f: "feed (k (Reply None (take n (b @ c)) 0)) (drop n (b @ c)) = (Ret x, r)"
      by (cases q) (auto split: if_splits)
    show ?thesis
    proof (cases "n \<le> length b")
      case True
      with f have "feed (k (Reply None (take n b) 0)) (drop n b @ c) = (Ret x, r)" by simp
      from Act.IH [OF rangeI this] show ?thesis using True q by simp
    qed (use q in simp)
  qed
qed simp_all

text \<open>
  The contract of a message: the reader decodes what the sender function encodes, leaving
  the bytes that follow, and in any environment a value it returns is one whose encoding it
  has read.
\<close>

locale wire_message =
  fixes enc :: "'a \<Rightarrow> bytes"
    and dec :: "'b go_result io"
    and ok :: "'a \<Rightarrow> bool"
    and meaning :: "'a \<Rightarrow> 'b"
  assumes dec_enc: "ok a \<Longrightarrow> feed dec (enc a @ rest) = (Ret (Inr (meaning a)), rest)"
    and dec_sound: "(\<And>e g'. Q (Inl e) g') \<Longrightarrow>
      (\<And>a. ok a \<Longrightarrow> Q (Inr (meaning a)) (g\<lparr>g_rd := g_rd g @ enc a\<rparr>)) \<Longrightarrow>
      wph X (watch cw cf) dec Q g"
begin

lemma dec_exact: "ok a \<Longrightarrow> feed dec (enc a) = (Ret (Inr (meaning a)), [])"
  using dec_enc [of a "[]"] by simp

text \<open>No message is a proper prefix of another: where one ends is decided by its own bytes.\<close>

lemma unambiguous:
  "ok a \<Longrightarrow> ok b \<Longrightarrow> enc a @ r = enc b @ r' \<Longrightarrow> meaning a = meaning b \<and> r = r'"
  using dec_enc [of a r] dec_enc [of b r'] by simp

text \<open>On a truncated message the reader neither returns a value nor an error: it waits.\<close>

lemma truncated_waits:
  assumes "ok a" and "k < length (enc a)"
  shows "feed dec (take k (enc a)) \<noteq> (Ret x, r)"
proof
  assume "feed dec (take k (enc a)) = (Ret x, r)"
  then have "feed dec (take k (enc a) @ drop k (enc a)) = (Ret x, r @ drop k (enc a))"
    by (rule feed_Ret_append)
  with dec_exact [OF assms(1)] assms(2) show False by simp
qed

lemma truncated_read:
  assumes "ok a" and "k < length (enc a)" 
  shows "\<exists>n f b. feed dec (take k (enc a)) = (Act (QRead n) f, b) \<and> length b < n"
proof -
  have "feed dec (take k (enc a) @ drop k (enc a)) = (Ret (Inr (meaning a)), [])"
    using dec_exact [OF assms(1)] by simp
  from feed_stuck [OF this] truncated_waits [OF assms] show ?thesis by auto
qed

end

lemma feed_readSentinel:
  "feed (readSentinel w s) (w # b) = (Ret (Inr ()), b)"
  by (simp add: readSentinel_def feed_try_ReadFull)

text \<open>What the buffer builders presuppose: fixed-size fields of their size, lengths that fit.\<close>

definition header_ok :: "MetaData \<Rightarrow> bool" where
  "header_ok h \<longleftrightarrow> length (h_FileID h) = HashSize \<and> length (h_Name h) < 2 ^ 32"

definition response_ok :: "Chunk \<Rightarrow> bool" where
  "response_ok c \<longleftrightarrow> length (c_Ciphertext c) < 2 ^ 32 \<and> length (c_Nonce c) = NonceSize \<and>
     length (c_HResp c) = HashSize"

text \<open>The receiver's view of a chunk: no plaintext, key or leaf, and its own file id.\<close>

definition received_chunk :: "bytes \<Rightarrow> Chunk \<Rightarrow> Chunk" where
  "received_chunk fileID c =
     \<lparr>c_FileID = fileID, c_Index = c_Index c, c_Length = word_of_nat (length (c_Ciphertext c)),
      c_Plaintext = [], c_Ciphertext = c_Ciphertext c, c_Key = [], c_Nonce = c_Nonce c,
      c_HResp = c_HResp c, c_Leaf = []\<rparr>"

lemma received_chunk_frame [simp]:
  "ChunkResponseBytes (received_chunk fileID c) = ChunkResponseBytes c"
  "response_ok (received_chunk fileID c) = response_ok c"
  "c_Index (received_chunk fileID c) = c_Index c"
  "c_FileID (received_chunk fileID c) = fileID"
  by (simp_all add: ChunkResponseBytes_def response_ok_def received_chunk_def)

lemma response_frame [simp]:
  "ChunkResponseBytes (c\<lparr>c_Key := k\<rparr>) = ChunkResponseBytes c"
  "ChunkResponseBytes (c\<lparr>c_Plaintext := p\<rparr>) = ChunkResponseBytes c"
  "response_ok (c\<lparr>c_Key := k\<rparr>) = response_ok c"
  "response_ok (c\<lparr>c_Plaintext := p\<rparr>) = response_ok c"
  by (simp_all add: ChunkResponseBytes_def response_ok_def)

lemma wp_readSentinel:
  "(\<And>e g'. Q (Inl e) g') \<Longrightarrow> Q (Inr ()) (g\<lparr>g_rd := g_rd g @ [w]\<rparr>) \<Longrightarrow>
   wph X (watch cw cf) (readSentinel w what) Q g"
  by (auto simp: readSentinel_def wp_try wp_ReadFull length_Suc_conv)

text \<open>The reads of a message, one after the other: sentinel, integers, byte fields.\<close>

lemma wp_try_sentinel:
  "(\<And>e g'. Q (h e) g') \<Longrightarrow> wph X (watch cw cf) (f ()) Q (g\<lparr>g_rd := g_rd g @ [w]\<rparr>) \<Longrightarrow>
   wph X (watch cw cf) (io_try (readSentinel w what) h f) Q g"
  by (simp add: wp_try wp_readSentinel)

lemma wp_try_bytes:
  "(\<And>e g'. Q (h e) g') \<Longrightarrow>
   (\<And>b. length b = n \<Longrightarrow> wph X (watch cw cf) (f b) Q (g\<lparr>g_rd := g_rd g @ b\<rparr>)) \<Longrightarrow>
   wph X (watch cw cf) (io_try (ReadFull n) h f) Q g"
  by (cases "n = 0") (auto simp: wp_try wp_ReadFull)

lemma wp_try_u32:
  assumes "\<And>e g'. Q (h e) g'"
    and "\<And>v. wph X (watch cw cf) (f (PutUint32 v)) Q (g\<lparr>g_rd := g_rd g @ PutUint32 v\<rparr>)"
  shows "wph X (watch cw cf) (io_try (ReadFull 4) h f) Q g"
proof (rule wp_try_bytes)
  fix b :: bytes
  assume "length b = 4"
  with assms(2) [of "Uint32 b"]
  show "wph X (watch cw cf) (f b) Q (g\<lparr>g_rd := g_rd g @ b\<rparr>)" by (simp add: PutUint32_Uint32)
qed (rule assms(1))

interpretation header_msg: wire_message HeaderBytes ReadHeader header_ok "\<lambda>h. h"
proof
  fix h :: MetaData and rest :: bytes
  assume "header_ok h"
  then show "feed ReadHeader (HeaderBytes h @ rest) = (Ret (Inr h), rest)"
    by (simp add: ReadHeader_def HeaderBytes_def header_ok_def Let_def feed_try
        [OF feed_readSentinel] feed_try_ReadFull unat_of_nat_u32)
next
  fix Q :: "MetaData go_result \<Rightarrow> ghost \<Rightarrow> bool" and g cw cf X
  assume err: "\<And>e g'. Q (Inl e) g'"
    and val: "\<And>h. header_ok h \<Longrightarrow> Q (Inr h) (g\<lparr>g_rd := g_rd g @ HeaderBytes h\<rparr>)"
  have "Q (Inr \<lparr>h_Name = bytes_str nm, h_FileSize = sz, h_Reps = reps, h_FileID = fid\<rparr>)
      (g\<lparr>g_rd := ((((((g_rd g @ [msgHeader]) @ PutUint32 reps) @ fid) @ PutUint32 nl) @ nm) @
         PutUint32 sz)\<rparr>)"
    if "length fid = HashSize" "length nm = unat nl" for reps sz nl :: u32 and fid nm :: bytes
  proof -
    let ?h = "\<lparr>h_Name = bytes_str nm, h_FileSize = sz, h_Reps = reps, h_FileID = fid\<rparr>"
    from that u32_less [of nl] have "header_ok ?h" by (simp add: header_ok_def)
    from val [OF this] that show ?thesis by (simp add: HeaderBytes_def Let_def)
  qed
  then show "wph X (watch cw cf) ReadHeader Q g"
    unfolding ReadHeader_def Let_def
    by (intro err wp_try_sentinel wp_try_u32 wp_try_bytes) simp_all
qed

interpretation request_msg: wire_message ChunkRequestBytes ReadChunkRequest "\<lambda>_. True" "\<lambda>i. i"
  by unfold_locales
    (auto simp: ReadChunkRequest_def ChunkRequestBytes_def feed_try [OF feed_readSentinel]
      feed_try_ReadFull intro!: wp_try_sentinel wp_try_u32)

interpretation response_msg: wire_message ChunkResponseBytes "ReadChunkResponse fileID"
  response_ok "received_chunk fileID" for fileID
proof
  fix c :: Chunk and rest :: bytes
  assume "response_ok c"
  then show "feed (ReadChunkResponse fileID) (ChunkResponseBytes c @ rest) =
      (Ret (Inr (received_chunk fileID c)), rest)"
    by (simp add: ReadChunkResponse_def ChunkResponseBytes_def response_ok_def received_chunk_def
        Let_def feed_try [OF feed_readSentinel] feed_try_ReadFull unat_of_nat_u32)
next
  fix Q :: "Chunk go_result \<Rightarrow> ghost \<Rightarrow> bool" and g cw cf X
  assume err: "\<And>e g'. Q (Inl e) g'"
    and val: "\<And>c. response_ok c \<Longrightarrow>
      Q (Inr (received_chunk fileID c)) (g\<lparr>g_rd := g_rd g @ ChunkResponseBytes c\<rparr>)"
  have "Q (Inr \<lparr>c_FileID = fileID, c_Index = i, c_Length = word_of_nat (length ct),
      c_Plaintext = [], c_Ciphertext = ct, c_Key = [], c_Nonce = nonce, c_HResp = hresp, c_Leaf = []\<rparr>)
      (g\<lparr>g_rd := (((((g_rd g @ [msgChunkResponse]) @ PutUint32 i) @ PutUint32 l) @ ct) @ nonce) @ hresp\<rparr>)"
    if "length ct = unat l" "length nonce = NonceSize" "length hresp = HashSize"
    for i l :: u32 and ct nonce hresp :: bytes
  proof -
    let ?c = "\<lparr>c_FileID = fileID, c_Index = i, c_Length = word_of_nat (length ct),
      c_Plaintext = [], c_Ciphertext = ct, c_Key = [], c_Nonce = nonce, c_HResp = hresp, c_Leaf = []\<rparr>"
    from that u32_less [of l] have "response_ok ?c" by (simp add: response_ok_def)
    from val [OF this] that show ?thesis
      by (simp add: ChunkResponseBytes_def received_chunk_def Let_def)
  qed
  then show "wph X (watch cw cf) (ReadChunkResponse fileID) Q g"
    unfolding ReadChunkResponse_def Let_def
    by (intro err wp_try_sentinel wp_try_u32 wp_try_bytes) simp_all
qed

interpretation ticket_msg: wire_message LotteryTicketBytes ReadLotteryTicket "\<lambda>_. True" "\<lambda>i. i"
  by unfold_locales
    (auto simp: ReadLotteryTicket_def LotteryTicketBytes_def feed_try [OF feed_readSentinel]
      feed_try_ReadFull intro!: wp_try_sentinel wp_try_u32)

interpretation key_msg: wire_message "\<lambda>(i, k). KeyRevealBytes i k" ReadKeyReveal
  "\<lambda>(i, k). length k = KeySize" "\<lambda>x. x"
proof
  fix a :: "u32 \<times> bytes" and rest :: bytes
  assume "case a of (i, k) \<Rightarrow> length k = KeySize"
  then show "feed ReadKeyReveal ((case a of (i, k) \<Rightarrow> KeyRevealBytes i k) @ rest) = (Ret (Inr a), rest)"
    by (auto simp: ReadKeyReveal_def KeyRevealBytes_def Let_def feed_try [OF feed_readSentinel]
        feed_try_ReadFull)
next
  fix Q :: "(u32 \<times> bytes) go_result \<Rightarrow> ghost \<Rightarrow> bool" and g cw cf X
  assume err: "\<And>e g'. Q (Inl e) g'"
    and val: "\<And>a. (case a of (i, k) \<Rightarrow> length k = KeySize) \<Longrightarrow>
      Q (Inr a) (g\<lparr>g_rd := g_rd g @ (case a of (i, k) \<Rightarrow> KeyRevealBytes i k)\<rparr>)"
  have "Q (Inr (i, k)) (g\<lparr>g_rd := ((g_rd g @ [msgKeyReveal]) @ PutUint32 i) @ k\<rparr>)"
    if "length k = KeySize" for i k
    using val [of "(i, k)"] that by (simp add: KeyRevealBytes_def)
  then show "wph X (watch cw cf) ReadKeyReveal Q g"
    unfolding ReadKeyReveal_def Let_def
    by (intro err wp_try_sentinel wp_try_u32 wp_try_bytes) simp_all
qed

interpretation root_msg: wire_message RootBytes ReadRoot "\<lambda>root. length root = HashSize" "\<lambda>r. r"
  by unfold_locales
    (auto simp: ReadRoot_def RootBytes_def feed_try [OF feed_readSentinel] feed_try_ReadFull
      intro!: wp_try_sentinel wp_try_bytes)

interpretation ack_msg: wire_message "\<lambda>_ :: unit. FinalAckBytes" ReadFinalAck "\<lambda>_. True" "\<lambda>u. u"
  by unfold_locales
    (auto simp: ReadFinalAck_def FinalAckBytes_def feed_readSentinel intro!: wp_readSentinel)

section \<open>Properties of the wire format\<close>

text \<open>C26: every reader decodes what the corresponding sender function writes, field by field, and
  takes exactly its bytes from the stream, whatever follows: header, chunk request, chunk response,
  lottery ticket, key reveal, root and acknowledgement.\<close>

theorem wire_roundtrip:
  assumes "header_ok h" and "response_ok c" and "length key = KeySize" and "length root = HashSize"
  shows "feed ReadHeader (HeaderBytes h @ rest) = (Ret (Inr h), rest) \<and>
    feed ReadChunkRequest (ChunkRequestBytes i @ rest) = (Ret (Inr i), rest) \<and>
    feed (ReadChunkResponse fileID) (ChunkResponseBytes c @ rest) = (Ret (Inr (received_chunk fileID c)), rest) \<and>
    feed ReadLotteryTicket (LotteryTicketBytes i @ rest) = (Ret (Inr i), rest) \<and>
    feed ReadKeyReveal (KeyRevealBytes i key @ rest) = (Ret (Inr (i, key)), rest) \<and>
    feed ReadRoot (RootBytes root @ rest) = (Ret (Inr root), rest) \<and>
    feed ReadFinalAck (FinalAckBytes @ rest) = (Ret (Inr ()), rest)"
  using assms header_msg.dec_enc request_msg.dec_enc response_msg.dec_enc ticket_msg.dec_enc
    key_msg.dec_enc [of "(i, key)"] root_msg.dec_enc ack_msg.dec_enc [where a = "()"]
  by simp

theorem wire_roundtrip_witness:
  "feed ReadHeader (HeaderBytes \<lparr>h_Name = ''a.txt'', h_FileSize = 3, h_Reps = 1, h_FileID = replicate 32 9\<rparr> @ [1, 2]) =
     (Ret (Inr \<lparr>h_Name = ''a.txt'', h_FileSize = 3, h_Reps = 1, h_FileID = replicate 32 9\<rparr>), [1, 2])"
  using wire_roundtrip [of "\<lparr>h_Name = ''a.txt'', h_FileSize = 3, h_Reps = 1, h_FileID = replicate 32 9\<rparr>"
      "\<lparr>c_FileID = [], c_Index = 0, c_Length = 0, c_Plaintext = [], c_Ciphertext = [], c_Key = [],
        c_Nonce = replicate 12 0, c_HResp = replicate 32 0, c_Leaf = []\<rparr>" "replicate 32 0" "replicate 32 0" "[1, 2]"]
  by (simp add: header_ok_def response_ok_def)

text \<open>The variable-length messages are self-delimiting: two headers, or two chunk responses, that
  start the same byte sequence are the same message and end at the same place, so no header or
  response is a proper prefix of another.\<close>

lemma wire_unambiguous:
  "(header_ok h \<and> header_ok h' \<and> HeaderBytes h @ r = HeaderBytes h' @ r' \<longrightarrow> h = h' \<and> r = r') \<and>
   (response_ok c \<and> response_ok c' \<and> ChunkResponseBytes c @ r = ChunkResponseBytes c' @ r' \<longrightarrow>
      received_chunk fileID c = received_chunk fileID c' \<and> r = r')"
  using header_msg.unambiguous [of h h' r r'] response_msg.unambiguous [of c c' r r' fileID] by blast

text \<open>A message cut short is never taken for a complete one, nor for an error of the peer: when
  only a proper prefix of a header or of a chunk response has arrived, the reader has not returned
  and waits for the rest.\<close>

lemma wire_truncated:
  "(header_ok h \<and> k < length (HeaderBytes h) \<longrightarrow>
      (\<exists>n f b. feed ReadHeader (take k (HeaderBytes h)) = (Act (QRead n) f, b) \<and> length b < n)) \<and>
   (response_ok c \<and> k < length (ChunkResponseBytes c) \<longrightarrow>
      (\<exists>n f b. feed (ReadChunkResponse fileID) (take k (ChunkResponseBytes c)) = (Act (QRead n) f, b) \<and> length b < n))"
  using header_msg.truncated_read [of h k] response_msg.truncated_read [of c k fileID]
  by blast

definition sentinel_error :: "byte \<Rightarrow> string \<Rightarrow> byte \<Rightarrow> go_error" where
  "sentinel_error want what b =
     Errorf ''expected %s (0x%02x), got 0x%02x'' [AStr what, AByte want, AByte b]"

lemma feed_wrong_sentinel:
  "b \<noteq> want \<Longrightarrow> feed (readSentinel want what) (b # rest) = (Ret (Inl (sentinel_error want what b)), rest)"
  by (simp add: readSentinel_def feed_try_ReadFull sentinel_error_def)

lemma feed_try_wrong:
  "b \<noteq> want \<Longrightarrow> feed (io_try (readSentinel want what) Inl k) (b # rest) =
     (Ret (Inl (sentinel_error want what b)), rest)"
  by (simp add: io_try_def feed_bind feed_wrong_sentinel)

text \<open>A reader that finds another message's sentinel, or any other byte, reports the byte it
  wanted and the byte it got, and takes nothing more from the stream.\<close>

lemma wrong_sentinel:
  "(b \<noteq> msgHeader \<longrightarrow> feed ReadHeader (b # rest) = (Ret (Inl (sentinel_error msgHeader ''header'' b)), rest)) \<and>
   (b \<noteq> msgChunkRequest \<longrightarrow>
      feed ReadChunkRequest (b # rest) = (Ret (Inl (sentinel_error msgChunkRequest ''chunk request'' b)), rest)) \<and>
   (b \<noteq> msgChunkResponse \<longrightarrow> feed (ReadChunkResponse fileID) (b # rest) =
      (Ret (Inl (sentinel_error msgChunkResponse ''chunk response'' b)), rest)) \<and>
   (b \<noteq> msgLotteryTicket \<longrightarrow>
      feed ReadLotteryTicket (b # rest) = (Ret (Inl (sentinel_error msgLotteryTicket ''lottery ticket'' b)), rest)) \<and>
   (b \<noteq> msgKeyReveal \<longrightarrow>
      feed ReadKeyReveal (b # rest) = (Ret (Inl (sentinel_error msgKeyReveal ''key reveal'' b)), rest)) \<and>
   (b \<noteq> msgMerkleRoot \<longrightarrow> feed ReadRoot (b # rest) = (Ret (Inl (sentinel_error msgMerkleRoot ''merkle root'' b)), rest)) \<and>
   (b \<noteq> msgFinalAck \<longrightarrow> feed ReadFinalAck (b # rest) = (Ret (Inl (sentinel_error msgFinalAck ''final ack'' b)), rest))"
  by (simp add: ReadHeader_def ReadChunkRequest_def ReadChunkResponse_def ReadLotteryTicket_def
      ReadKeyReveal_def ReadRoot_def ReadFinalAck_def feed_wrong_sentinel feed_try_wrong)

end
