(* ===== verification/Merkle.thy ===== *)
theory Merkle
  imports Utils
begin

text \<open>
  Package \<^verbatim>\<open>merkle\<close> (\<^verbatim>\<open>src/Merkle/merkle.go\<close>): the leaf of a chunk, the tree over the leaves
  (a list of levels, the leaves first) and its root. The two loops of \<^verbatim>\<open>BuildTree\<close> are the
  functions \<open>layer_loop\<close> and \<open>build_loop\<close>; \<open>pair_up\<close> and \<open>merkle_root\<close> are the reference they
  are compared with.
\<close>

section \<open>The code\<close>

definition GenerateLeaf :: "digest \<Rightarrow> Chunk \<Rightarrow> bytes" where
  "GenerateLeaf H chunk =
     (let index = PutUint32 (c_Index chunk)
      in Keccak H [c_FileID chunk, index, c_Nonce chunk, c_Ciphertext chunk, c_HResp chunk])"

text \<open>The inner loop: \<^verbatim>\<open>for i := 0; i < len(current); i += 2\<close>.\<close>

function layer_loop :: "digest \<Rightarrow> bytes list \<Rightarrow> nat \<Rightarrow> bytes list \<Rightarrow> bytes list" where
  "layer_loop H current i next =
     (if i < length current
      then let left = current ! i;
               right = (if i + 1 < length current then current ! (i + 1) else current ! i);
               parent = Keccak H [left, right]
           in layer_loop H current (i + 2) (next @ [parent])
      else next)"
  by pat_completeness auto
termination
  by (relation "measure (\<lambda>(H, current, i, next). length current - i)") auto

declare layer_loop.simps [simp del]

text \<open>The reference for one level: neighbours are hashed together, a last odd one with itself.\<close>

fun pair_up :: "digest \<Rightarrow> bytes list \<Rightarrow> bytes list" where
  "pair_up H [] = []"
| "pair_up H [a] = [H (a @ a)]"
| "pair_up H (a # b # xs) = H (a @ b) # pair_up H xs"

lemma length_pair_up [simp]: "length (pair_up H xs) = (length xs + 1) div 2"
  by (induction H xs rule: pair_up.induct) simp_all

lemma layer_loop_pair_up: "layer_loop H current i next = next @ pair_up H (drop i current)"
proof (induction H current i "next" rule: layer_loop.induct)
  case (1 H current i "next")
  show ?case
  proof (cases "i < length current")
    case True
    show ?thesis
    proof (cases "i + 1 < length current")
      case True
      then have d: "drop i current = current ! i # current ! (i + 1) # drop (i + 2) current"
        by (simp add: Cons_nth_drop_Suc)
      show ?thesis
        using True "1.IH" by (subst layer_loop.simps) (simp add: d Keccak_eq Let_def)
    next
      case False
      with \<open>i < length current\<close> have d: "drop i current = [current ! i]" and e: "drop (i + 2) current = []"
        by (simp_all add: Cons_nth_drop_Suc [symmetric])
      show ?thesis
        using False \<open>i < length current\<close> "1.IH"
        by (subst layer_loop.simps) (simp add: d e Keccak_eq Let_def del: drop_eq_Nil)
    qed
  next
    case False
    then show ?thesis by (subst layer_loop.simps) simp
  qed
qed

text \<open>The outer loop: \<^verbatim>\<open>for len(current) > 1\<close>.\<close>

function build_loop :: "digest \<Rightarrow> bytes list \<Rightarrow> bytes list list \<Rightarrow> bytes list list" where
  "build_loop H current tree =
     (if 1 < length current
      then let next = layer_loop H current 0 [] in build_loop H next (tree @ [next])
      else tree)"
  by pat_completeness auto
termination
  by (relation "measure (\<lambda>(H, current, tree). length current)") (auto simp: layer_loop_pair_up)

declare build_loop.simps [simp del]

definition BuildTree :: "digest \<Rightarrow> bytes list \<Rightarrow> bytes list list" where
  "BuildTree H leaves = (if length leaves = 0 then [] else build_loop H leaves [leaves])"

text \<open>\<^verbatim>\<open>lastLevel[0]\<close> is an index panic when the last level is empty. A nil root is \<open>[]\<close>.\<close>

definition Root_of_tree :: "bytes list list \<Rightarrow> string + bytes" where
  "Root_of_tree tree =
     (if length tree = 0 then Inr []
      else let lastLevel = tree ! (length tree - 1)
           in case lastLevel of
                [] \<Rightarrow> Inl ''runtime error: index out of range [0] with length 0''
              | r # _ \<Rightarrow> Inr r)"

lemma GenerateLeaf_frame [simp]:
  "GenerateLeaf H (c\<lparr>c_Leaf := l\<rparr>) = GenerateLeaf H c"
  "GenerateLeaf H (c\<lparr>c_Plaintext := p\<rparr>) = GenerateLeaf H c"
  "GenerateLeaf H (c\<lparr>c_Key := k\<rparr>) = GenerateLeaf H c"
  by (simp_all add: GenerateLeaf_def)

section \<open>The reference\<close>

function merkle_root :: "digest \<Rightarrow> bytes list \<Rightarrow> bytes" where
  "merkle_root H xs =
     (if 1 < length xs then merkle_root H (pair_up H xs) else if xs = [] then [] else hd xs)"
  by pat_completeness auto
termination
  by (relation "measure (\<lambda>(H, xs). length xs)") auto

declare merkle_root.simps [simp del]

lemma build_loop_shape:
  "current \<noteq> [] \<Longrightarrow> \<exists>levels. build_loop H current tree = tree @ levels \<and>
     last (current # levels) = [merkle_root H current]"
proof (induction H current tree rule: build_loop.induct)
  case (1 H current tree)
  show ?case
  proof (cases "1 < length current")
    case True
    let ?next = "pair_up H current"
    have "?next \<noteq> []" using True by (auto simp flip: length_greater_0_conv)
    with "1.IH" [OF True] obtain levels where
      "build_loop H ?next (tree @ [?next]) = (tree @ [?next]) @ levels"
      "last (?next # levels) = [merkle_root H ?next]"
      by (auto simp: layer_loop_pair_up)
    then have "build_loop H current tree = tree @ ?next # levels \<and>
        last (current # ?next # levels) = [merkle_root H current]"
      using True
      by (simp add: build_loop.simps [of H current] layer_loop_pair_up
          merkle_root.simps [of H current])
    then show ?thesis by blast
  next
    case False
    with "1.prems" obtain x where "current = [x]" by (cases current) auto
    then have "build_loop H current tree = tree @ [] \<and> last (current # []) = [merkle_root H current]"
      by (simp add: build_loop.simps [of H "[x]"] merkle_root.simps [of H "[x]"])
    then show ?thesis by blast
  qed
qed

text \<open>The root the code extracts from the tree it builds is the reference root: no panic.\<close>

lemma root_of_built_tree: "Root_of_tree (BuildTree H leaves) = Inr (merkle_root H leaves)"
proof (cases "leaves = []")
  case True
  then show ?thesis by (simp add: BuildTree_def Root_of_tree_def merkle_root.simps)
next
  case False
  then obtain levels where b: "build_loop H leaves [leaves] = [leaves] @ levels"
    and l: "last (leaves # levels) = [merkle_root H leaves]"
    using build_loop_shape by blast
  then have "(leaves # levels) ! length levels = [merkle_root H leaves]"
    by (simp add: last_conv_nth split: if_splits)
  with b False show ?thesis by (simp add: BuildTree_def Root_of_tree_def)
qed

lemma pair_up_sizes:
  assumes "\<And>x. length (H x) = HashSize"
  shows "\<forall>y\<in>set (pair_up H xs). length y = HashSize"
  by (induction xs rule: induct_list012) (simp_all add: assms)

lemma length_merkle_root:
  assumes H: "\<And>x. length (H x) = HashSize"
  shows "xs \<noteq> [] \<Longrightarrow> \<forall>x\<in>set xs. length x = HashSize \<Longrightarrow> length (merkle_root H xs) = HashSize"
proof (induction "length xs" arbitrary: xs rule: less_induct)
  case less
  show ?case
  proof (cases "1 < length xs")
    case True
    then have "pair_up H xs \<noteq> []" by (auto simp flip: length_greater_0_conv)
    with True have "length (merkle_root H (pair_up H xs)) = HashSize"
      by (intro less.hyps) (simp_all add: pair_up_sizes [OF H])
    with True show ?thesis by (simp add: merkle_root.simps [of H xs])
  next
    case False
    with less.prems show ?thesis by (simp add: merkle_root.simps [of H xs])
  qed
qed

section \<open>The shape of the tree\<close>

lemma pair_up_nth:
  "j < (length xs + 1) div 2 \<Longrightarrow>
   pair_up H xs ! j = H (xs ! (2 * j) @ xs ! min (2 * j + 1) (length xs - 1))"
proof (induction xs arbitrary: j rule: induct_list012)
  case (3 a b xs)
  show ?case
  proof (cases j)
    case (Suc i)
    with "3.prems" have "i < (length xs + 1) div 2" by simp
    moreover from this have "0 < length xs" by (cases xs) simp_all
    ultimately show ?thesis using Suc "3.IH"(1) by (auto simp: min_def nth_Cons')
  qed simp
qed simp_all

text \<open>Each level is made from the one before, and only levels with more than one node have a next.\<close>

lemma build_loop_successively:
  "successively (\<lambda>a b. 1 < length a \<and> b = pair_up H a) (tree @ [current]) \<Longrightarrow>
   successively (\<lambda>a b. 1 < length a \<and> b = pair_up H a) (build_loop H current (tree @ [current]))"
proof (induction "length current" arbitrary: current tree rule: less_induct)
  case less
  show ?case
  proof (cases "1 < length current")
    case True
    let ?next = "pair_up H current"
    have "successively (\<lambda>a b. 1 < length a \<and> b = pair_up H a) ((tree @ [current]) @ [?next])"
      using less.prems True by (simp add: successively_append_iff)
    with True have "successively (\<lambda>a b. 1 < length a \<and> b = pair_up H a)
        (build_loop H ?next ((tree @ [current]) @ [?next]))"
      by (intro less.hyps) simp_all
    with True show ?thesis
      by (simp add: build_loop.simps [of H current] layer_loop_pair_up Let_def)
  next
    case False
    with less.prems show ?thesis by (simp add: build_loop.simps [of H current])
  qed
qed

lemma BuildTree_next_level:
  assumes "Suc k < length (BuildTree H leaves)"
  shows "1 < length (BuildTree H leaves ! k)"
    and "BuildTree H leaves ! Suc k = pair_up H (BuildTree H leaves ! k)"
proof -
  have "successively (\<lambda>a b. 1 < length a \<and> b = pair_up H a) (BuildTree H leaves)"
    using build_loop_successively [of H "[]" leaves] by (simp add: BuildTree_def)
  with assms show "1 < length (BuildTree H leaves ! k)"
    and "BuildTree H leaves ! Suc k = pair_up H (BuildTree H leaves ! k)"
    by (auto simp: successively_conv_nth)
qed

lemma ceil_div_step: "0 < (a::nat) \<Longrightarrow> ((n + a - 1) div a + 1) div 2 = (n + 2 * a - 1) div (2 * a)"
proof -
  assume a: "0 < a"
  have "(n + 2 * a - 1) div (a * 2) = (n + a - 1 + a) div a div 2"
    using a by (simp add: div_mult2_eq mult_2 add.assoc)
  also have "(n + a - 1 + a) div a = (n + a - 1) div a + 1"
    using a by (rule div_add_self2 [OF gr_implies_not_zero])
  finally show ?thesis by (simp add: mult.commute)
qed

lemma BuildTree_level_size:
  assumes "leaves \<noteq> []" and "k < length (BuildTree H leaves)"
  shows "length (BuildTree H leaves ! k) = (length leaves + 2 ^ k - 1) div 2 ^ k"
  using assms(2)
proof (induction k)
  case 0
  obtain levels where "build_loop H leaves [leaves] = [leaves] @ levels"
    using build_loop_shape [OF assms(1)] by blast
  with assms(1) show ?case by (simp add: BuildTree_def)
next
  case (Suc k)
  then have "length (BuildTree H leaves ! Suc k) = ((length leaves + 2 ^ k - 1) div 2 ^ k + 1) div 2"
    by (simp add: BuildTree_next_level(2))
  also have "\<dots> = (length leaves + 2 ^ Suc k - 1) div 2 ^ Suc k"
    using ceil_div_step [of "2 ^ k" "length leaves"] by simp
  finally show ?case .
qed

lemma BuildTree_ends:
  assumes "leaves \<noteq> []"
  shows "BuildTree H leaves \<noteq> []" and "BuildTree H leaves ! 0 = leaves"
    and "last (BuildTree H leaves) = [merkle_root H leaves]"
proof -
  obtain levels where "build_loop H leaves [leaves] = [leaves] @ levels"
    and "last (leaves # levels) = [merkle_root H leaves]"
    using build_loop_shape [OF assms] by blast
  with assms show "BuildTree H leaves \<noteq> []" and "BuildTree H leaves ! 0 = leaves"
    and "last (BuildTree H leaves) = [merkle_root H leaves]"
    by (simp_all add: BuildTree_def)
qed

lemma ceil_div_le_one: "0 < (a::nat) \<Longrightarrow> (n + a - 1) div a \<le> 1 \<longleftrightarrow> n \<le> a"
proof -
  assume a: "0 < a"
  have "(n + a - 1) div a < 2 \<longleftrightarrow> n + a - 1 < 2 * a"
    using a by (simp add: div_less_iff_less_mult)
  with a show ?thesis by auto
qed

text \<open>The number of levels above the leaves is the logarithm of their number, rounded up.\<close>

lemma BuildTree_depth:
  assumes "leaves \<noteq> []"
  shows "length leaves \<le> 2 ^ (length (BuildTree H leaves) - 1)"
    and "1 < length (BuildTree H leaves) \<Longrightarrow> 2 ^ (length (BuildTree H leaves) - 2) < length leaves"
proof -
  let ?t = "BuildTree H leaves" and ?n = "length leaves"
  have ne: "?t \<noteq> []" by (rule BuildTree_ends(1) [OF assms])
  have "length (?t ! (length ?t - 1)) = 1"
    using BuildTree_ends(3) [OF assms, of H] ne by (simp add: last_conv_nth)
  moreover have "length (?t ! (length ?t - 1)) = (?n + 2 ^ (length ?t - 1) - 1) div 2 ^ (length ?t - 1)"
    using ne by (intro BuildTree_level_size [OF assms]) (simp add: length_greater_0_conv)
  ultimately show "?n \<le> 2 ^ (length ?t - 1)"
    using ceil_div_le_one [of "2 ^ (length ?t - 1)" ?n] by simp
  assume two: "1 < length ?t"
  then have "Suc (length ?t - 2) < length ?t" by simp
  from BuildTree_next_level(1) [OF this] have "1 < length (?t ! (length ?t - 2))" .
  moreover have "length (?t ! (length ?t - 2)) = (?n + 2 ^ (length ?t - 2) - 1) div 2 ^ (length ?t - 2)"
    using two by (intro BuildTree_level_size [OF assms]) simp
  ultimately show "2 ^ (length ?t - 2) < ?n"
    using ceil_div_le_one [of "2 ^ (length ?t - 2)" ?n] by simp
qed

section \<open>What the root commits to\<close>

text \<open>The messages hashed for one level and for the whole tree.\<close>

fun pair_inputs :: "bytes list \<Rightarrow> bytes list" where
  "pair_inputs [] = []"
| "pair_inputs [a] = [a @ a]"
| "pair_inputs (a # b # xs) = (a @ b) # pair_inputs xs"

function merkle_inputs :: "digest \<Rightarrow> bytes list \<Rightarrow> bytes list" where
  "merkle_inputs H xs =
     (if 1 < length xs then pair_inputs xs @ merkle_inputs H (pair_up H xs) else [])"
  by pat_completeness auto
termination
  by (relation "measure (\<lambda>(H, xs). length xs)") auto

declare merkle_inputs.simps [simp del]

lemma pair_up_map: "pair_up H xs = map H (pair_inputs xs)"
  by (induction xs rule: pair_inputs.induct) simp_all

lemma length_pair_inputs [simp]: "length (pair_inputs xs) = (length xs + 1) div 2"
  by (induction xs rule: pair_inputs.induct) simp_all

text \<open>Two messages of the two lists with the same digest.\<close>

definition collision :: "digest \<Rightarrow> bytes list \<Rightarrow> bytes list \<Rightarrow> bool" where
  "collision H us vs \<longleftrightarrow> (\<exists>u\<in>set us. \<exists>v\<in>set vs. u \<noteq> v \<and> H u = H v)"

lemma collision_append:
  "collision H us vs \<Longrightarrow> collision H (us @ us') (vs @ vs')"
  "collision H us' vs' \<Longrightarrow> collision H (us @ us') (vs @ vs')"
  by (auto simp: collision_def)

lemma map_eq_or_collision: "map H us = map H vs \<Longrightarrow> us = vs \<or> collision H us vs"
proof (induction us vs rule: list_induct2')
  case (4 u us v vs)
  then show ?case by (auto simp: collision_def)
qed (simp_all add: collision_def)

lemma pair_inputs_inject:
  "length xs = length ys \<Longrightarrow> \<forall>x\<in>set xs \<union> set ys. length x = n \<Longrightarrow> pair_inputs xs = pair_inputs ys \<Longrightarrow> xs = ys"
proof (induction xs arbitrary: ys rule: induct_list012)
  case (2 a)
  then show ?case by (cases ys) auto
next
  case (3 a b xs)
  then obtain c d zs where ys: "ys = c # d # zs"
    by (metis length_Suc_conv)
  with "3.prems" show ?case using "3.IH"(1) [of zs] by simp
qed simp

lemma root_eq_or_collision:
  assumes H: "\<And>x. length (H x) = HashSize"
  shows "length xs = length ys \<Longrightarrow> \<forall>x\<in>set xs \<union> set ys. length x = HashSize \<Longrightarrow>
    merkle_root H xs = merkle_root H ys \<Longrightarrow>
    xs = ys \<or> collision H (merkle_inputs H xs) (merkle_inputs H ys)"
proof (induction "length xs" arbitrary: xs ys rule: less_induct)
  case less
  show ?case
  proof (cases "1 < length xs")
    case True
    let ?xs = "pair_up H xs" and ?ys = "pair_up H ys"
    have "merkle_root H ?xs = merkle_root H ?ys"
      using less.prems True by (simp add: merkle_root.simps [of H xs] merkle_root.simps [of H ys])
    with True less.prems(1) have "?xs = ?ys \<or> collision H (merkle_inputs H ?xs) (merkle_inputs H ?ys)"
      using pair_up_sizes [OF H] by (intro less.hyps) auto
    then consider "pair_inputs xs = pair_inputs ys" | "collision H (pair_inputs xs) (pair_inputs ys)"
      | "collision H (merkle_inputs H ?xs) (merkle_inputs H ?ys)"
      using map_eq_or_collision by (auto simp: pair_up_map)
    then show ?thesis
    proof cases
      case 1
      with less.prems show ?thesis using pair_inputs_inject by blast
    qed (use True less.prems(1) in \<open>auto simp: merkle_inputs.simps [of H xs]
        merkle_inputs.simps [of H ys] intro: collision_append\<close>)
  next
    case False
    with less.prems show ?thesis
      by (cases xs; cases ys) (auto simp: merkle_root.simps)
  qed
qed

lemma pair_up_duplicate: "even (length xs) \<Longrightarrow> pair_up H (xs @ [x, x]) = pair_up H (xs @ [x])"
  by (induction xs rule: induct_list012) simp_all

lemma merkle_root_duplicate:
  "even (length xs) \<Longrightarrow> xs \<noteq> [] \<Longrightarrow> merkle_root H (xs @ [x, x]) = merkle_root H (xs @ [x])"
  by (subst (1 2) merkle_root.simps) (simp add: pair_up_duplicate)

section \<open>Properties of the tree\<close>

text \<open>C28: the root \<^verbatim>\<open>BuildTree\<close> and \<^verbatim>\<open>Root\<close> compute with their index loops is the one of the
  recursive definition (hash neighbours, an odd last one with itself, until one is left); in
  particular \<^verbatim>\<open>Root\<close> never indexes an empty level, and the root of no leaves is nil.\<close>

theorem tree_root_is_reference: "Root_of_tree (BuildTree H leaves) = Inr (merkle_root H leaves)"
  by (rule root_of_built_tree)

text \<open>The shape of the tree. Level 0 is the list of leaves, level \<open>k\<close> has \<open>n / 2 ^ k\<close> nodes
  rounded up, each node of the next level is the hash of its two children (of the last one twice if
  it has no neighbour), the last level is the root alone, and there are as few levels as
  possible.\<close>

lemma tree_shape:
  assumes "leaves \<noteq> []"
  shows "let t = BuildTree H leaves in
    t \<noteq> [] \<and> t ! 0 = leaves \<and> last t = [merkle_root H leaves] \<and>
    (\<forall>k<length t. length (t ! k) = (length leaves + 2 ^ k - 1) div 2 ^ k) \<and>
    (\<forall>k j. Suc k < length t \<longrightarrow> j < length (t ! Suc k) \<longrightarrow>
       t ! Suc k ! j = H (t ! k ! (2 * j) @ t ! k ! min (2 * j + 1) (length (t ! k) - 1))) \<and>
    length leaves \<le> 2 ^ (length t - 1) \<and> (1 < length t \<longrightarrow> 2 ^ (length t - 2) < length leaves)"
  using BuildTree_ends [OF assms(1)] BuildTree_level_size [OF assms(1)] BuildTree_depth [OF assms(1)]
  by (auto simp: Let_def BuildTree_next_level(2) pair_up_nth)

text \<open>C29: the root commits to the leaves: two lists of equally many 32-byte leaves with the same
  root are the same list, or among the messages hashed on the way to the two roots there are two
  different ones with the same digest.\<close>

theorem root_binds_leaves:
  assumes "\<And>x. length (H x) = HashSize" and "length xs = length ys"
    and "\<forall>x\<in>set xs \<union> set ys. length x = HashSize"
    and "Root_of_tree (BuildTree H xs) = Root_of_tree (BuildTree H ys)"
  shows "xs = ys \<or> collision H (merkle_inputs H xs) (merkle_inputs H ys)"
  using root_eq_or_collision [of H, OF assms(1,2,3)] assms(4) by (simp add: root_of_built_tree)

theorem root_binds_leaves_witness:
  "collision (\<lambda>_. replicate 32 0)
     (merkle_inputs (\<lambda>_. replicate 32 0) [replicate 32 1, replicate 32 2])
     (merkle_inputs (\<lambda>_. replicate 32 0) [replicate 32 1, replicate 32 3])"
  using root_binds_leaves [of "\<lambda>_. replicate 32 0" "[replicate 32 1, replicate 32 2]"
      "[replicate 32 1, replicate 32 3]"]
  by (simp add: root_of_built_tree merkle_root.simps)



end
