(* ===== verification/Controllers.thy ===== *)
theory Controllers
  imports Wire Merkle
begin

text \<open>
  Package \<^verbatim>\<open>controllers\<close> (\<^verbatim>\<open>src/Controllers/controllers.go\<close>): the steps of the sender and of the
  receiver, their step tables, and the two entry points \<^verbatim>\<open>SendFile\<close> and \<^verbatim>\<open>RecieveFile\<close>. A
  nil-pointer dereference and an index out of range are \<open>Halt (Panic _)\<close>, \<^verbatim>\<open>log.Fatal\<close> is
  \<open>Halt (Fatal _ _)\<close>.
\<close>

section \<open>Metadata\<close>

text \<open>
  \<^verbatim>\<open>PrepareMetadata\<close> uses the \<^verbatim>\<open>FileInfo\<close> before it tests the error of \<^verbatim>\<open>Stat\<close>: with an error the
  interface is nil and the call of \<^verbatim>\<open>Size\<close> panics. The sizes are \<^verbatim>\<open>int64\<close>, division truncates.
\<close>

definition metadata_of :: "string \<Rightarrow> u64 \<Rightarrow> MetaData" where
  "metadata_of name filesize =
     \<lparr>h_Name = name, h_FileSize = ucast filesize,
      h_Reps = ucast (int64_div (filesize + word_of_nat ChunkSize - 1) (word_of_nat ChunkSize)),
      h_FileID = []\<rparr>"

definition PrepareMetadata :: "string \<Rightarrow> MetaData io" where
  "PrepareMetadata file =
     io_bind (FileStat file) (\<lambda>r. case r of
       Inl e \<Rightarrow> Halt (Panic ''invalid memory address or nil pointer dereference'')
     | Inr (name, filesize) \<Rightarrow> Ret (metadata_of name filesize))"

definition generateFileID :: "digest \<Rightarrow> string \<Rightarrow> bytes go_result io" where
  "generateFileID H file =
     io_bind (FileStat file) (\<lambda>r. case r of
       Inl e \<Rightarrow> Halt (Fatal ''Error reading stats of the file'' e)
     | Inr (filename, filesize) \<Rightarrow>
         io_bind TimeNow (\<lambda>timestamp.
           let sizeBytes = PutUint64 filesize; timeBytes = PutUint64 timestamp
           in Ret (Inr (Keccak H [str_bytes filename, sizeBytes, timeBytes]))))"

section \<open>The sender\<close>

definition stepSenderIdle :: Step where
  "stepSenderIdle s = Ret (s, Inr StateSendHeader)"

definition stepSenderSendHeader :: Step where
  "stepSenderSendHeader s =
     (let header = \<lparr>h_Name = s_FileName s, h_FileSize = ucast (s_FileSize s),
                    h_Reps = s_TotalChunks s, h_FileID = s_FileID s\<rparr> in
      io_try (SendHeader header) (\<lambda>e. (s, Inl (Errorf ''sending header: %w'' [AErr e]))) (\<lambda>_.
      if s_TotalChunks s = 0 then Ret (s, Inr StateFinished)
      else Ret (s, Inr StateWaitingChunkRequest)))"

definition stepSenderWaitChunkRequest :: Step where
  "stepSenderWaitChunkRequest s =
     io_try ReadChunkRequest (\<lambda>e. (s, Inl (Errorf ''reading chunk request: %w'' [AErr e]))) (\<lambda>idx.
     if idx \<noteq> s_CurrentChunk s
     then Ret (s, Inl (Errorf ''out-of-order chunk request: want %d, got %d''
            [AU32 (s_CurrentChunk s), AU32 idx]))
     else Ret (s, Inr StateSendChunkResponse))"

definition stepSenderSendChunkResponse :: "digest \<Rightarrow> Step" where
  "stepSenderSendChunkResponse H s =
     io_try (ReadChunkPlaintext (s_File s) (s_CurrentChunk s) (s_ChunkSize s))
       (\<lambda>e. (s, Inl (Errorf ''reading chunk %d from disk: %w'' [AU32 (s_CurrentChunk s), AErr e])))
       (\<lambda>plaintext.
     io_try (BuildAndEncryptChunk H (s_FileID s) (s_CurrentChunk s) plaintext) (\<lambda>e. (s, Inl e)) (\<lambda>c.
     io_try (SendChunkResponse c)
       (\<lambda>e. (s, Inl (Errorf ''sending chunk response %d: %w'' [AU32 (s_CurrentChunk s), AErr e])))
       (\<lambda>_.
     Ret (s\<lparr>s_PendingChunk := Some c\<rparr>, Inr StateWaitingLotteryTicket))))"

definition stepSenderWaitLotteryTicket :: Step where
  "stepSenderWaitLotteryTicket s =
     io_try ReadLotteryTicket (\<lambda>e. (s, Inl (Errorf ''reading lottery ticket: %w'' [AErr e]))) (\<lambda>idx.
     if idx \<noteq> s_CurrentChunk s
     then Ret (s, Inl (Errorf ''lottery ticket for wrong chunk: want %d, got %d''
            [AU32 (s_CurrentChunk s), AU32 idx]))
     else Ret (s, Inr StateSendKeyReveal))"

definition stepSenderSendKeyReveal :: "digest \<Rightarrow> Step" where
  "stepSenderSendKeyReveal H s =
     (case s_PendingChunk s of
        None \<Rightarrow> Halt (Panic ''invalid memory address or nil pointer dereference'')
      | Some pending \<Rightarrow>
          io_try (SendKeyReveal (s_CurrentChunk s) (c_Key pending))
            (\<lambda>e. (s, Inl (Errorf ''sending key reveal %d: %w'' [AU32 (s_CurrentChunk s), AErr e])))
            (\<lambda>_.
          let pending = pending\<lparr>c_Leaf := GenerateLeaf H pending\<rparr>;
              s = s\<lparr>s_PendingChunk := Some pending, s_Leaves := s_Leaves s @ [c_Leaf pending]\<rparr>;
              last = IsLastChunk s;
              s = s\<lparr>s_PendingChunk := None\<rparr>
          in if last then Ret (s, Inr StateVerifyMerkle)
             else Ret (AdvanceChunk s, Inr StateWaitingChunkRequest)))"

definition stepSenderVerifyMerkle :: "digest \<Rightarrow> Step" where
  "stepSenderVerifyMerkle H s =
     (case Root_of_tree (BuildTree H (s_Leaves s)) of
        Inl p \<Rightarrow> Halt (Panic p)
      | Inr root \<Rightarrow>
          io_try (SendRoot root) (\<lambda>e. (s, Inl (Errorf ''sending merkle root: %w'' [AErr e]))) (\<lambda>_.
          io_try ReadFinalAck (\<lambda>e. (s, Inl (Errorf ''waiting for final ack: %w'' [AErr e]))) (\<lambda>_.
          io_bind (Printf_nl ''Sent %d chunks, merkle root: %x'' [AU32 (s_TotalChunks s), AHex root]) (\<lambda>_.
          Ret (s, Inr StateFinished)))))"

fun senderSteps :: "digest \<Rightarrow> StepTable" where
  "senderSteps H StateIdle = Some stepSenderIdle"
| "senderSteps H StateSendHeader = Some stepSenderSendHeader"
| "senderSteps H StateWaitingChunkRequest = Some stepSenderWaitChunkRequest"
| "senderSteps H StateSendChunkResponse = Some (stepSenderSendChunkResponse H)"
| "senderSteps H StateWaitingLotteryTicket = Some stepSenderWaitLotteryTicket"
| "senderSteps H StateSendKeyReveal = Some (stepSenderSendKeyReveal H)"
| "senderSteps H StateVerifyMerkle = Some (stepSenderVerifyMerkle H)"
| "senderSteps H _ = None"

text \<open>The session \<^verbatim>\<open>SendFile\<close> starts from, and \<^verbatim>\<open>SendFile\<close> with its deferred \<^verbatim>\<open>file.Close()\<close>.\<close>

definition sender_session :: "string \<Rightarrow> bytes \<Rightarrow> MetaData \<Rightarrow> Session" where
  "sender_session file fileID header =
     (NewSession RoleSender)
       \<lparr>s_File := Some file, s_FileID := fileID, s_FileName := h_Name header,
        s_FileSize := ucast (h_FileSize header), s_TotalChunks := h_Reps header\<rparr>"

definition SendFile :: "digest \<Rightarrow> nat \<Rightarrow> string \<Rightarrow> run_result io" where
  "SendFile H fuel path =
     io_bind (OpenFile path) (\<lambda>r. case r of
       Inl e \<Rightarrow> Halt (Fatal ''Error reading the file:'' e)
     | Inr file \<Rightarrow>
         io_bind (generateFileID H file) (\<lambda>r. case r of
           Inl e \<Rightarrow> io_bind (FileClose (Some file)) (\<lambda>_.
             Ret (Returned (NewSession RoleSender)
               (Some (Errorf ''couldn't generate file ID: %w'' [AErr e]))))
         | Inr fileID \<Rightarrow>
             io_bind (PrepareMetadata file) (\<lambda>header.
             let header = header\<lparr>h_FileID := fileID\<rparr>;
                 s = sender_session file fileID header
             in io_bind (Run fuel s (senderSteps H)) (\<lambda>res.
                io_bind (FileClose (Some file)) (\<lambda>_. Ret res)))))"

section \<open>The receiver\<close>

definition stepReceiverIdle :: Step where
  "stepReceiverIdle s = Ret (s, Inr StateReceiveHeader)"

definition stepReceiverReceiveHeader :: Step where
  "stepReceiverReceiveHeader s =
     io_try ReadHeader (\<lambda>e. (s, Inl (Errorf ''reading header: %w'' [AErr e]))) (\<lambda>header.
     let s = s\<lparr>s_FileID := h_FileID header, s_FileName := h_Name header,
               s_FileSize := ucast (h_FileSize header), s_TotalChunks := h_Reps header\<rparr> in
     io_bind (MkdirAll ''./received/'') (\<lambda>_.
     io_try (CreateFile (''./received/'' @ h_Name header))
       (\<lambda>e. (s, Inl (Errorf ''creating output file: %w'' [AErr e]))) (\<lambda>file.
     let s = s\<lparr>s_File := Some file\<rparr> in
     if s_TotalChunks s = 0
     then io_try (FileClose (s_File s))
            (\<lambda>e. (s, Inl (Errorf ''closing empty output file: %w'' [AErr e]))) (\<lambda>_.
          Ret (s, Inr StateFinished))
     else io_bind (Printf_nl ''Reps: %d, name: %s, fileID: %x''
              [AU32 (h_Reps header), AStr (h_Name header), AHex (h_FileID header)]) (\<lambda>_.
          Ret (s, Inr StateSendChunkRequest)))))"

definition stepReceiverSendChunkRequest :: Step where
  "stepReceiverSendChunkRequest s =
     io_try (SendChunkRequest (s_CurrentChunk s))
       (\<lambda>e. (s, Inl (Errorf ''sending chunk request %d: %w'' [AU32 (s_CurrentChunk s), AErr e])))
       (\<lambda>_. Ret (s, Inr StateWaitingChunkResponse))"

definition stepReceiverWaitChunkResponse :: Step where
  "stepReceiverWaitChunkResponse s =
     io_try (ReadChunkResponse (s_FileID s))
       (\<lambda>e. (s, Inl (Errorf ''reading chunk response %d: %w'' [AU32 (s_CurrentChunk s), AErr e])))
       (\<lambda>c.
     if c_Index c \<noteq> s_CurrentChunk s
     then Ret (s, Inl (Errorf ''out-of-order chunk response: want %d, got %d''
            [AU32 (s_CurrentChunk s), AU32 (c_Index c)]))
     else Ret (s\<lparr>s_PendingChunk := Some c\<rparr>, Inr StateSendLotteryTicket))"

definition stepReceiverSendLotteryTicket :: Step where
  "stepReceiverSendLotteryTicket s =
     io_try (SendLotteryTicket (s_CurrentChunk s))
       (\<lambda>e. (s, Inl (Errorf ''sending lottery ticket %d: %w'' [AU32 (s_CurrentChunk s), AErr e])))
       (\<lambda>_. Ret (s, Inr StateWaitingKeyReveal))"

definition stepReceiverWaitKeyReveal :: Step where
  "stepReceiverWaitKeyReveal s =
     io_try ReadKeyReveal
       (\<lambda>e. (s, Inl (Errorf ''reading key reveal %d: %w'' [AU32 (s_CurrentChunk s), AErr e])))
       (\<lambda>(idx, key).
     if idx \<noteq> s_CurrentChunk s
     then Ret (s, Inl (Errorf ''key reveal for wrong chunk: want %d, got %d''
            [AU32 (s_CurrentChunk s), AU32 idx]))
     else case s_PendingChunk s of
            None \<Rightarrow> Halt (Panic ''invalid memory address or nil pointer dereference'')
          | Some c \<Rightarrow> Ret (s\<lparr>s_PendingChunk := Some (c\<lparr>c_Key := key\<rparr>)\<rparr>, Inr StateVerifyChunk))"

definition stepReceiverVerifyChunk :: "digest \<Rightarrow> Step" where
  "stepReceiverVerifyChunk H s =
     (case s_PendingChunk s of
        None \<Rightarrow> Halt (Panic ''invalid memory address or nil pointer dereference'')
      | Some c \<Rightarrow>
          io_bind (DecryptAndCheck H c) (\<lambda>(c, r).
          case r of
            Inl e \<Rightarrow> Ret (s\<lparr>s_PendingChunk := Some c\<rparr>, Inl e)
          | Inr plaintext \<Rightarrow>
              let c = c\<lparr>c_Leaf := GenerateLeaf H c\<rparr>;
                  s = s\<lparr>s_PendingChunk := Some c, s_Leaves := s_Leaves s @ [c_Leaf c]\<rparr> in
              io_try (FileWrite (s_File s) plaintext)
                (\<lambda>e. (s, Inl (Errorf ''writing chunk %d to disk: %w'' [AU32 (s_CurrentChunk s), AErr e])))
                (\<lambda>_.
              let last = IsLastChunk s;
                  s = s\<lparr>s_PendingChunk := None\<rparr>
              in if last then Ret (s, Inr StateVerifyMerkle)
                 else Ret (AdvanceChunk s, Inr StateSendChunkRequest))))"

text \<open>The deferred \<^verbatim>\<open>s.File.Close()\<close> runs after the body on every path, its result is dropped.\<close>

definition verifyMerkle_body :: "digest \<Rightarrow> Step" where
  "verifyMerkle_body H s =
     io_try ReadRoot (\<lambda>e. (s, Inl (Errorf ''reading merkle root: %w'' [AErr e]))) (\<lambda>remoteRoot.
     case Root_of_tree (BuildTree H (s_Leaves s)) of
       Inl p \<Rightarrow> Halt (Panic p)
     | Inr localRoot \<Rightarrow>
         if localRoot \<noteq> remoteRoot
         then Ret (s, Inl (Errorf ''merkle root mismatch: local=%x remote=%x''
                [AHex localRoot, AHex remoteRoot]))
         else io_bind (Printf_nl ''Merkle root verified: %x'' [AHex localRoot]) (\<lambda>_.
              io_try SendFinalAck (\<lambda>e. (s, Inl (Errorf ''sending final ack: %w'' [AErr e]))) (\<lambda>_.
              Ret (s, Inr StateFinished))))"

definition stepReceiverVerifyMerkle :: "digest \<Rightarrow> Step" where
  "stepReceiverVerifyMerkle H s =
     io_bind (verifyMerkle_body H s) (\<lambda>result.
     io_bind (FileClose (s_File s)) (\<lambda>_. Ret result))"

fun receiverSteps :: "digest \<Rightarrow> StepTable" where
  "receiverSteps H StateIdle = Some stepReceiverIdle"
| "receiverSteps H StateReceiveHeader = Some stepReceiverReceiveHeader"
| "receiverSteps H StateSendChunkRequest = Some stepReceiverSendChunkRequest"
| "receiverSteps H StateWaitingChunkResponse = Some stepReceiverWaitChunkResponse"
| "receiverSteps H StateSendLotteryTicket = Some stepReceiverSendLotteryTicket"
| "receiverSteps H StateWaitingKeyReveal = Some stepReceiverWaitKeyReveal"
| "receiverSteps H StateVerifyChunk = Some (stepReceiverVerifyChunk H)"
| "receiverSteps H StateVerifyMerkle = Some (stepReceiverVerifyMerkle H)"
| "receiverSteps H _ = None"

definition RecieveFile :: "digest \<Rightarrow> nat \<Rightarrow> run_result io" where
  "RecieveFile H fuel = Run fuel (NewSession RoleReceiver) (receiverSteps H)"

lemmas sender_step_defs [step_defs] =
  stepSenderIdle_def stepSenderSendHeader_def stepSenderWaitChunkRequest_def
  stepSenderSendChunkResponse_def stepSenderWaitLotteryTicket_def stepSenderSendKeyReveal_def
  stepSenderVerifyMerkle_def

lemmas receiver_step_defs [step_defs] =
  stepReceiverIdle_def stepReceiverReceiveHeader_def stepReceiverSendChunkRequest_def
  stepReceiverWaitChunkResponse_def stepReceiverSendLotteryTicket_def
  stepReceiverWaitKeyReveal_def stepReceiverVerifyChunk_def stepReceiverVerifyMerkle_def
  verifyMerkle_body_def

section \<open>Histories\<close>

text \<open>
  The vocabulary in which both sides' histories are described. What the receiver says about
  chunk \<open>i\<close>: its request, then its lottery ticket.
\<close>

definition exchange :: "nat \<Rightarrow> bytes" where
  "exchange i = ChunkRequestBytes (word_of_nat i) @ LotteryTicketBytes (word_of_nat i)"

definition exchanges :: "nat \<Rightarrow> bytes" where
  "exchanges n = concat (map exchange [0..<n])"

lemma exchanges_0 [simp]: "exchanges 0 = []"
  by (simp add: exchanges_def)

lemma exchanges_Suc [simp]: "exchanges (Suc n) = exchanges n @ exchange n"
  by (simp add: exchanges_def)

text \<open>What the sender writes for a chunk: the response, then the key.\<close>

definition chunk_msgs :: "Chunk \<Rightarrow> bytes list" where
  "chunk_msgs c = [ChunkResponseBytes c, KeyRevealBytes (c_Index c) (c_Key c)]"

definition request_msgs :: "nat \<Rightarrow> bytes list" where
  "request_msgs n =
     concat (map (\<lambda>i. [ChunkRequestBytes (word_of_nat i), LotteryTicketBytes (word_of_nat i)]) [0..<n])"

lemma request_msgs_0 [simp]: "request_msgs 0 = []"
  by (simp add: request_msgs_def)

lemma request_msgs_Suc [simp]:
  "request_msgs (Suc n) =
     request_msgs n @ [ChunkRequestBytes (word_of_nat n), LotteryTicketBytes (word_of_nat n)]"
  by (simp add: request_msgs_def)

lemma concat_request_msgs: "concat (request_msgs n) = exchanges n"
  by (induction n) (simp_all add: exchange_def)

definition chunk_stream :: "Chunk list \<Rightarrow> bytes" where
  "chunk_stream cs = concat (concat (map chunk_msgs cs))"

lemma chunk_stream_Nil [simp]: "chunk_stream [] = []"
  by (simp add: chunk_stream_def)

lemma chunk_stream_snoc [simp]:
  "chunk_stream (cs @ [c]) =
     chunk_stream cs @ ChunkResponseBytes c @ KeyRevealBytes (c_Index c) (c_Key c)"
  by (simp add: chunk_stream_def chunk_msgs_def)

section \<open>Sizes\<close>

text \<open>A block fits into one GCM message.\<close>

lemma u32_le_gcm_limit: "length b \<le> unat (v :: u32) \<Longrightarrow> length b \<le> gcm_limit"
  using u32_less [of v] by (simp add: gcm_limit_def)

section \<open>Bounded steps\<close>

text \<open>
  No step makes more than ten calls, so with the line \<^verbatim>\<open>Transition\<close> logs neither side makes more than
  eleven per iteration.
\<close>

lemma sender_steps_at_most: "senderSteps H st = Some step \<Longrightarrow> at_most (step s) 10"
  by (cases st)
    (auto simp: sender_step_defs send_defs Let_def root_of_built_tree intro!: at_most_intros
      split: option.split)

lemma at_most_verifyMerkle_body: "at_most (verifyMerkle_body H s) 4"
  by (auto simp: verifyMerkle_body_def send_defs root_of_built_tree intro!: at_most_intros)

lemma receiver_steps_at_most: "receiverSteps H st = Some step \<Longrightarrow> at_most (step s) 10"
  unfolding receiver_step_defs(1-8)
  by (cases st)
    (auto simp: receiver_step_defs(1-8) send_defs Let_def
      intro!: at_most_intros at_most_then [OF at_most_verifyMerkle_body] split: option.split sum.split)

lemma Run_at_most_11:
  "at_most (Run fuel s (senderSteps H)) (11 * fuel)" "at_most (Run fuel s (receiverSteps H)) (11 * fuel)"
  using Run_at_most [of "senderSteps H" 10 fuel s] Run_at_most [of "receiverSteps H" 10 fuel s]
  by (simp_all add: sender_steps_at_most receiver_steps_at_most)

lemma SendFile_at_most: "at_most (SendFile H fuel path) (11 * fuel + 5)"
proof -
  have "at_most (io_bind (Run fuel s (senderSteps H)) (\<lambda>res. io_bind (FileClose (Some f)) (\<lambda>_. Ret res))) (11 * fuel + 1)"
    for s f
    by (intro at_most_bind Run_at_most_11) (auto intro!: at_most_intros)
  then show ?thesis
    unfolding SendFile_def generateFileID_def PrepareMetadata_def Let_def OpenFile_def FileStat_def
      TimeNow_def
    by (auto split: option.split)
qed

lemma RecieveFile_at_most: "at_most (RecieveFile H fuel) (11 * fuel)"
  unfolding RecieveFile_def by (rule Run_at_most_11)

end
