(* ===== verification/Exchange.thy ===== *)
theory Exchange
  imports Controllers
begin

text \<open>
  The protocol the two step tables are meant to implement, as one conversation between a sender and
  a receiver: which message may follow which, with what contents. It knows messages and not bytes,
  rounds and not session states; \<open>encode\<close> gives each message its bytes. The theories \<open>Sender\<close> and
  \<open>Receiver\<close> show that each side speaks only when it is its turn in such a conversation.
\<close>

section \<open>Messages and conversations\<close>

datatype message =
    Header MetaData
  | Request nat
  | Response Chunk
  | Ticket nat
  | Key nat bytes
  | Root bytes
  | Ack

fun encode :: "message \<Rightarrow> bytes" where
  "encode (Header h) = HeaderBytes h"
| "encode (Request i) = ChunkRequestBytes (word_of_nat i)"
| "encode (Response c) = ChunkResponseBytes c"
| "encode (Ticket i) = LotteryTicketBytes (word_of_nat i)"
| "encode (Key i k) = KeyRevealBytes (word_of_nat i) k"
| "encode (Root r) = RootBytes r"
| "encode Ack = FinalAckBytes"

fun speaker :: "message \<Rightarrow> Role" where
  "speaker (Request i) = RoleReceiver"
| "speaker (Ticket i) = RoleReceiver"
| "speaker Ack = RoleReceiver"
| "speaker _ = RoleSender"

fun peer :: "Role \<Rightarrow> Role" where
  "peer RoleSender = RoleReceiver"
| "peer RoleReceiver = RoleSender"

text \<open>The stage of a conversation: the header and the leaves of the chunks whose keys are out.\<close>

datatype stage =
    Opening
  | Ready MetaData "bytes list"
  | Asked MetaData "bytes list"
  | Answered MetaData "bytes list" bytes
  | Ticketed MetaData "bytes list" bytes
  | Complete MetaData "bytes list"
  | Rooted MetaData "bytes list"
  | Closed MetaData "bytes list"

fun advance :: "digest \<Rightarrow> stage \<Rightarrow> message \<Rightarrow> stage option" where
  "advance H Opening (Header h) = Some (if h_Reps h = 0 then Closed h [] else Ready h [])"
| "advance H (Ready h ls) (Request i) = (if i = length ls then Some (Asked h ls) else None)"
| "advance H (Asked h ls) (Response c) =
     (if c_Index c = word_of_nat (length ls) \<and> c_FileID c = h_FileID h
      then Some (Answered h ls (GenerateLeaf H c)) else None)"
| "advance H (Answered h ls l) (Ticket i) = (if i = length ls then Some (Ticketed h ls l) else None)"
| "advance H (Ticketed h ls l) (Key i k) =
     (if i = length ls \<and> length k = KeySize
      then Some (if Suc (length ls) = unat (h_Reps h) then Complete h (ls @ [l]) else Ready h (ls @ [l]))
      else None)"
| "advance H (Complete h ls) (Root r) = (if r = merkle_root H ls then Some (Rooted h ls) else None)"
| "advance H (Rooted h ls) Ack = Some (Closed h ls)"
| "advance H _ _ = None"

inductive conversation :: "digest \<Rightarrow> message list \<Rightarrow> stage \<Rightarrow> bool" for H where
  silence: "conversation H [] Opening"
| say: "conversation H cv st \<Longrightarrow> advance H st m = Some st' \<Longrightarrow> conversation H (cv @ [m]) st'"

inductive_cases conversation_snocE: "conversation H (cv @ [m]) st"

lemma conversation_snocD: "conversation H (cv @ [m]) st \<Longrightarrow> \<exists>st'. conversation H cv st'"
  by (auto elim: conversation_snocE)

text \<open>What one side of a conversation has said, in bytes.\<close>

definition spoken :: "Role \<Rightarrow> message list \<Rightarrow> bytes list" where
  "spoken role cv = map encode (filter (\<lambda>m. speaker m = role) cv)"

lemma spoken_simps [simp]:
  "spoken role [] = []"
  "spoken role (m # cv) = (if speaker m = role then encode m # spoken role cv else spoken role cv)"
  "spoken role (cv @ cv') = spoken role cv @ spoken role cv'"
  by (simp_all add: spoken_def)

text \<open>
  The turn of a side: what it has written and read so far are the two halves of a conversation in
  which \<open>b\<close> is its next message.
\<close>

definition turn :: "digest \<Rightarrow> Role \<Rightarrow> ghost \<Rightarrow> bytes \<Rightarrow> bool" where
  "turn H role g b \<longleftrightarrow>
     (\<exists>cv m st. conversation H (cv @ [m]) st \<and> speaker m = role \<and> encode m = b \<and>
        spoken role cv = g_wr g \<and> concat (spoken (peer role) cv) = g_rd g)"

section \<open>Fairness\<close>

text \<open>
  How often a kind of message has been said. In every conversation a key is matched by a ticket, a
  ticket by a response, a response by a request, and at most one chunk is in flight.
\<close>

fun kind :: "message \<Rightarrow> nat" where
  "kind (Request i) = 1"
| "kind (Response c) = 2"
| "kind (Ticket i) = 3"
| "kind (Key i k) = 4"
| "kind _ = 0"

definition said :: "nat \<Rightarrow> message list \<Rightarrow> nat" where
  "said n cv = length (filter (\<lambda>m. kind m = n) cv)"

lemma said_simps [simp]:
  "said n [] = 0" "said n (cv @ [m]) = said n cv + (if kind m = n then 1 else 0)"
  by (simp_all add: said_def)

definition fair :: "message list \<Rightarrow> bool" where
  "fair cv \<longleftrightarrow> said 4 cv \<le> said 3 cv \<and> said 3 cv \<le> said 2 cv \<and> said 2 cv \<le> said 1 cv \<and> said 1 cv \<le> Suc (said 4 cv)"

text \<open>The counts a stage stands for: requests, responses, tickets, keys.\<close>

fun tally :: "stage \<Rightarrow> nat list" where
  "tally Opening = [0, 0, 0, 0]"
| "tally (Ready h ls) = replicate 4 (length ls)"
| "tally (Asked h ls) = [Suc (length ls), length ls, length ls, length ls]"
| "tally (Answered h ls l) = [Suc (length ls), Suc (length ls), length ls, length ls]"
| "tally (Ticketed h ls l) = [Suc (length ls), Suc (length ls), Suc (length ls), length ls]"
| "tally (Complete h ls) = replicate 4 (length ls)"
| "tally (Rooted h ls) = replicate 4 (length ls)"
| "tally (Closed h ls) = replicate 4 (length ls)"

lemma conversation_tally: "conversation H cv st \<Longrightarrow> map (\<lambda>n. said n cv) [1, 2, 3, 4] = tally st"
proof (induction rule: conversation.induct)
  case (say cv st m st')
  then show ?case by (cases st; cases m) (auto simp: numeral_eq_Suc split: if_splits)
qed simp

lemma conversation_fair: "conversation H cv st \<Longrightarrow> fair cv"
  using conversation_tally [of H cv st] by (cases st) (auto simp: fair_def numeral_eq_Suc)

section \<open>Complete rounds\<close>

definition round_msgs :: "nat \<Rightarrow> Chunk \<Rightarrow> message list" where
  "round_msgs i c = [Request i, Response c, Ticket i, Key i (c_Key c)]"

definition rounds :: "Chunk list \<Rightarrow> message list" where
  "rounds cs = concat (map (\<lambda>i. round_msgs i (cs ! i)) [0..<length cs])"

lemma rounds_simps [simp]:
  "rounds [] = []" "rounds (cs @ [c]) = rounds cs @ round_msgs (length cs) c"
proof -
  have "map (\<lambda>i. round_msgs i ((cs @ [c]) ! i)) [0..<length cs] = map (\<lambda>i. round_msgs i (cs ! i)) [0..<length cs]"
    by (simp add: nth_append)
  then show "rounds (cs @ [c]) = rounds cs @ round_msgs (length cs) c"
    unfolding rounds_def by (simp del: map_eq_conv)
qed (simp add: rounds_def)

text \<open>Chunks as they can be said in the order of the list.\<close>

definition in_order :: "MetaData \<Rightarrow> Chunk list \<Rightarrow> bool" where
  "in_order h cs \<longleftrightarrow>
     (\<forall>i<length cs. c_Index (cs ! i) = word_of_nat i \<and> c_FileID (cs ! i) = h_FileID h \<and> length (c_Key (cs ! i)) = KeySize)"

lemma in_order_snoc [simp]:
  "in_order h (cs @ [c]) \<longleftrightarrow> in_order h cs \<and> c_Index c = word_of_nat (length cs) \<and> c_FileID c = h_FileID h \<and>
     length (c_Key c) = KeySize"
  by (auto simp: in_order_def nth_append less_Suc_eq)

lemma in_order_Nil [simp]: "in_order h []"
  by (simp add: in_order_def)

lemma spoken_rounds:
  assumes "in_order h cs"
  shows "spoken RoleSender (Header h # rounds cs) = HeaderBytes h # concat (map chunk_msgs cs)"
    and "spoken RoleReceiver (Header h # rounds cs) = request_msgs (length cs)"
    and "concat (spoken RoleSender (Header h # rounds cs)) = HeaderBytes h @ chunk_stream cs"
    and "concat (spoken RoleReceiver (Header h # rounds cs)) = exchanges (length cs)"
proof -
  have *: "spoken RoleSender (rounds cs) = concat (map chunk_msgs cs) \<and>
      spoken RoleReceiver (rounds cs) = request_msgs (length cs)"
    using assms by (induction cs rule: rev_induct) (simp_all add: round_msgs_def chunk_msgs_def)
  then show "spoken RoleSender (Header h # rounds cs) = HeaderBytes h # concat (map chunk_msgs cs)"
    and "spoken RoleReceiver (Header h # rounds cs) = request_msgs (length cs)"
    and "concat (spoken RoleSender (Header h # rounds cs)) = HeaderBytes h @ chunk_stream cs"
    and "concat (spoken RoleReceiver (Header h # rounds cs)) = exchanges (length cs)"
    by (simp_all add: chunk_stream_def concat_request_msgs)
qed

text \<open>The messages of a round, one after the other.\<close>

lemma conversation_round:
  assumes "conversation H cv (Ready h ls)"
  shows "conversation H (cv @ [Request (length ls)]) (Asked h ls)"
    and "c_Index c = word_of_nat (length ls) \<Longrightarrow> c_FileID c = h_FileID h \<Longrightarrow>
      conversation H (cv @ [Request (length ls), Response c]) (Answered h ls (GenerateLeaf H c))"
    and "c_Index c = word_of_nat (length ls) \<Longrightarrow> c_FileID c = h_FileID h \<Longrightarrow>
      conversation H (cv @ [Request (length ls), Response c, Ticket (length ls)]) (Ticketed h ls (GenerateLeaf H c))"
    and "c_Index c = word_of_nat (length ls) \<Longrightarrow> c_FileID c = h_FileID h \<Longrightarrow> length k = KeySize \<Longrightarrow>
      conversation H (cv @ [Request (length ls), Response c, Ticket (length ls), Key (length ls) k])
        (if Suc (length ls) = unat (h_Reps h) then Complete h (ls @ [GenerateLeaf H c]) else Ready h (ls @ [GenerateLeaf H c]))"
proof -
  show 1: "conversation H (cv @ [Request (length ls)]) (Asked h ls)"
    by (rule conversation.say [OF assms]) simp
  assume c: "c_Index c = word_of_nat (length ls)" "c_FileID c = h_FileID h"
  show 2: "conversation H (cv @ [Request (length ls), Response c]) (Answered h ls (GenerateLeaf H c))"
    using conversation.say [OF 1, of "Response c"] c by simp
  show 3: "conversation H (cv @ [Request (length ls), Response c, Ticket (length ls)]) (Ticketed h ls (GenerateLeaf H c))"
    using conversation.say [OF 2, of "Ticket (length ls)"] by simp
  assume "length k = KeySize"
  then show "conversation H (cv @ [Request (length ls), Response c, Ticket (length ls), Key (length ls) k])
      (if Suc (length ls) = unat (h_Reps h) then Complete h (ls @ [GenerateLeaf H c]) else Ready h (ls @ [GenerateLeaf H c]))"
    using conversation.say [OF 3, of "Key (length ls) k"] by (simp split: if_splits)
qed

lemma rounds_conversation:
  assumes "in_order h cs" and "length cs \<le> unat (h_Reps h)" and "h_Reps h \<noteq> 0"
  shows "conversation H (Header h # rounds cs)
    (if length cs = unat (h_Reps h) then Complete h (map (GenerateLeaf H) cs) else Ready h (map (GenerateLeaf H) cs))"
  using assms
proof (induction cs rule: rev_induct)
  case Nil
  have "conversation H ([] @ [Header h]) (Ready h [])"
    using Nil by (intro conversation.say [OF conversation.silence]) simp
  with Nil show ?case by (simp add: unat_eq_0 [symmetric])
next
  case (snoc c cs)
  from snoc have "conversation H (Header h # rounds cs) (Ready h (map (GenerateLeaf H) cs))" by simp
  from conversation_round(4) [OF this, of c "c_Key c"] snoc.prems show ?case
    by (simp add: round_msgs_def split: if_splits)
qed

section \<open>Whose turn it is\<close>

lemma turnI:
  "conversation H (cv @ [m]) st \<Longrightarrow> speaker m = role \<Longrightarrow> spoken role cv = g_wr g \<Longrightarrow>
   concat (spoken (peer role) cv) = g_rd g \<Longrightarrow> turn H role g (encode m)"
  unfolding turn_def by blast

lemma turn_header: "g_wr g = [] \<Longrightarrow> g_rd g = [] \<Longrightarrow> turn H RoleSender g (HeaderBytes h)"
  using turnI [where m = "Header h" and cv = "[]" and role = RoleSender] conversation.say [OF conversation.silence, of H "Header h"]
  by simp

text \<open>Within round \<open>length cs\<close>.\<close>

lemma ready:
  assumes "in_order h cs" and "length cs < unat (h_Reps h)"
  shows "conversation H (Header h # rounds cs) (Ready h (map (GenerateLeaf H) cs))"
proof -
  have "h_Reps h \<noteq> 0" using assms(2) by auto
  with rounds_conversation [OF assms(1), where H = H] assms(2) show ?thesis by simp
qed

lemma turn_request:
  assumes "in_order h cs" and "length cs < unat (h_Reps h)"
    and "g_wr g = request_msgs (length cs)" and "g_rd g = HeaderBytes h @ chunk_stream cs"
  shows "turn H RoleReceiver g (ChunkRequestBytes (word_of_nat (length cs)))"
  using turnI [OF conversation_round(1) [OF ready [OF assms(1,2), where H = H]], where role = RoleReceiver]
    spoken_rounds [OF assms(1)] assms(3,4) by simp

lemma turn_response:
  assumes "in_order h cs" and "length cs < unat (h_Reps h)"
    and "c_Index c = word_of_nat (length cs)" and "c_FileID c = h_FileID h"
    and "g_wr g = HeaderBytes h # concat (map chunk_msgs cs)"
    and "g_rd g = exchanges (length cs) @ ChunkRequestBytes (word_of_nat (length cs))"
  shows "turn H RoleSender g (ChunkResponseBytes c)"
proof -
  have "conversation H (((Header h # rounds cs) @ [Request (length cs)]) @ [Response c])
      (Answered h (map (GenerateLeaf H) cs) (GenerateLeaf H c))"
    using conversation_round(2) [OF ready [OF assms(1,2), where H = H], of c] assms(3,4) by simp
  from turnI [OF this, where role = RoleSender and g = g] show ?thesis
    using spoken_rounds [OF assms(1)] assms(5,6) by simp
qed

lemma turn_ticket:
  assumes "in_order h cs" and "length cs < unat (h_Reps h)"
    and "c_Index c = word_of_nat (length cs)" and "c_FileID c = h_FileID h"
    and "g_wr g = request_msgs (length cs) @ [ChunkRequestBytes (word_of_nat (length cs))]"
    and "g_rd g = HeaderBytes h @ chunk_stream cs @ ChunkResponseBytes c"
  shows "turn H RoleReceiver g (LotteryTicketBytes (word_of_nat (length cs)))"
proof -
  have "conversation H (((Header h # rounds cs) @ [Request (length cs), Response c]) @ [Ticket (length cs)])
      (Ticketed h (map (GenerateLeaf H) cs) (GenerateLeaf H c))"
    using conversation_round(3) [OF ready [OF assms(1,2), where H = H], of c] assms(3,4) by simp
  from turnI [OF this, where role = RoleReceiver and g = g] show ?thesis
    using spoken_rounds [OF assms(1)] assms(5,6) by simp
qed

lemma turn_key:
  assumes "in_order h cs" and "length cs < unat (h_Reps h)"
    and "c_Index c = word_of_nat (length cs)" and "c_FileID c = h_FileID h" and "length k = KeySize"
    and "g_wr g = (HeaderBytes h # concat (map chunk_msgs cs)) @ [ChunkResponseBytes c]"
    and "g_rd g = exchanges (Suc (length cs))"
  shows "turn H RoleSender g (KeyRevealBytes (word_of_nat (length cs)) k)"
proof -
  obtain st where "conversation H (((Header h # rounds cs) @ [Request (length cs), Response c, Ticket (length cs)]) @
      [Key (length cs) k]) st"
    using conversation_round(4) [OF ready [OF assms(1,2), where H = H], of c k] assms(3-5) by auto
  from turnI [OF this, where role = RoleSender and g = g] show ?thesis
    using spoken_rounds [OF assms(1)] assms(6,7) by (simp add: exchange_def)
qed

text \<open>After the last round.\<close>

lemma complete:
  assumes "in_order h cs" and "length cs = unat (h_Reps h)" and "h_Reps h \<noteq> 0"
  shows "conversation H ((Header h # rounds cs) @ [Root (merkle_root H (map (GenerateLeaf H) cs))])
    (Rooted h (map (GenerateLeaf H) cs))"
  using rounds_conversation [OF assms(1), where H = H] assms(2,3) by (intro conversation.say) auto

lemma turn_root:
  assumes "in_order h cs" and "length cs = unat (h_Reps h)" and "h_Reps h \<noteq> 0"
    and "g_wr g = HeaderBytes h # concat (map chunk_msgs cs)" and "g_rd g = exchanges (length cs)"
  shows "turn H RoleSender g (RootBytes (merkle_root H (map (GenerateLeaf H) cs)))"
  using turnI [OF complete [OF assms(1-3), where H = H], where role = RoleSender and g = g]
    spoken_rounds [OF assms(1)] assms(4,5) by simp

lemma closed:
  assumes "in_order h cs" and "length cs = unat (h_Reps h)" and "h_Reps h \<noteq> 0"
  shows "conversation H (((Header h # rounds cs) @ [Root (merkle_root H (map (GenerateLeaf H) cs))]) @ [Ack])
    (Closed h (map (GenerateLeaf H) cs))"
  by (rule conversation.say [OF complete [OF assms]]) simp

lemma closed_conversation:
  assumes "in_order h cs" and "length cs = unat (h_Reps h)"
  shows "\<exists>cv ls. conversation H cv (Closed h ls) \<and> length ls = unat (h_Reps h) \<and>
    spoken RoleSender cv = HeaderBytes h # concat (map chunk_msgs cs) @
      (if cs = [] then [] else [RootBytes (merkle_root H (map (GenerateLeaf H) cs))]) \<and>
    spoken RoleReceiver cv = request_msgs (length cs) @ (if cs = [] then [] else [FinalAckBytes])"
proof (cases "cs = []")
  case True
  with assms(2) have "conversation H ([] @ [Header h]) (Closed h [])"
    by (intro conversation.say [OF conversation.silence]) (simp add: unat_eq_0)
  then show ?thesis using True assms(2) by (intro exI [of _ "[Header h]"] exI [of _ "[]"]) simp
next
  case False
  with assms(2) have "h_Reps h \<noteq> 0" by auto
  from closed [OF assms this, of H] False assms(2) spoken_rounds(1,2) [OF assms(1)] show ?thesis
    by (intro exI [of _ "((Header h # rounds cs) @ [Root (merkle_root H (map (GenerateLeaf H) cs))]) @ [Ack]"]
        exI [of _ "map (GenerateLeaf H) cs"]) simp
qed

lemma turn_ack:
  assumes "in_order h cs" and "length cs = unat (h_Reps h)" and "h_Reps h \<noteq> 0"
    and "g_wr g = request_msgs (length cs)"
    and "g_rd g = HeaderBytes h @ chunk_stream cs @ RootBytes (merkle_root H (map (GenerateLeaf H) cs))"
  shows "turn H RoleReceiver g FinalAckBytes"
  using turnI [OF closed [OF assms(1-3), where H = H], where role = RoleReceiver and g = g]
    spoken_rounds [OF assms(1)] assms(4,5) by simp

end
