(* ===== verification/Sender.thy ===== *)
theory Sender
  imports Exchange
begin

text \<open>
  The sender in an arbitrary environment: whatever the peer sends, the disk returns and the
  random source delivers. The invariant relates the session at the head of the loop to the
  bytes read and the messages written so far; the step table \<open>senderSteps\<close> is shown to keep
  the contract of the locale \<open>step_table\<close> with it.
\<close>

section \<open>The history of a sender\<close>

text \<open>What \<^verbatim>\<open>BuildAndEncryptChunk\<close> guarantees of the chunk it returns.\<close>

definition sealed_chunk :: "digest \<Rightarrow> bytes \<Rightarrow> nat \<Rightarrow> Chunk \<Rightarrow> bool" where
  "sealed_chunk H fileID i c \<longleftrightarrow>
     c_FileID c = fileID \<and> c_Index c = word_of_nat i \<and>
     length (c_Key c) = KeySize \<and> length (c_Nonce c) = NonceSize \<and>
     c_Ciphertext c = gcm_Seal (c_Key c) (c_Nonce c) (c_Plaintext c) \<and>
     c_HResp c = H (c_Key c @ c_Plaintext c)"

definition session_header :: "Session \<Rightarrow> MetaData" where
  "session_header s =
     \<lparr>h_Name = s_FileName s, h_FileSize = ucast (s_FileSize s), h_Reps = s_TotalChunks s,
      h_FileID = s_FileID s\<rparr>"

definition sent_msgs :: "Session \<Rightarrow> Chunk list \<Rightarrow> bytes list" where
  "sent_msgs s cs = HeaderBytes (session_header s) # concat (map chunk_msgs cs)"

text \<open>\<open>cs\<close> are the chunks whose keys have been revealed.\<close>

definition sender_chunks :: "digest \<Rightarrow> Session \<Rightarrow> Chunk list \<Rightarrow> bool" where
  "sender_chunks H s cs \<longleftrightarrow>
     s_Leaves s = map (GenerateLeaf H) cs \<and>
     (\<forall>i<length cs. sealed_chunk H (s_FileID s) i (cs ! i))"

fun sender_at :: "digest \<Rightarrow> Session \<Rightarrow> ghost \<Rightarrow> Chunk list \<Rightarrow> TransferState \<Rightarrow> bool" where
  "sender_at H s g cs StateIdle \<longleftrightarrow> cs = [] \<and> s_CurrentChunk s = 0 \<and> g_wr g = [] \<and> g_rd g = []"
| "sender_at H s g cs StateSendHeader \<longleftrightarrow>
     cs = [] \<and> s_CurrentChunk s = 0 \<and> g_wr g = [] \<and> g_rd g = []"
| "sender_at H s g cs StateWaitingChunkRequest \<longleftrightarrow>
     s_CurrentChunk s < s_TotalChunks s \<and> length cs = unat (s_CurrentChunk s) \<and>
     g_wr g = sent_msgs s cs \<and> g_rd g = exchanges (length cs)"
| "sender_at H s g cs StateSendChunkResponse \<longleftrightarrow>
     s_CurrentChunk s < s_TotalChunks s \<and> length cs = unat (s_CurrentChunk s) \<and>
     g_wr g = sent_msgs s cs \<and> g_rd g = exchanges (length cs) @ ChunkRequestBytes (s_CurrentChunk s)"
| "sender_at H s g cs StateWaitingLotteryTicket \<longleftrightarrow>
     s_CurrentChunk s < s_TotalChunks s \<and> length cs = unat (s_CurrentChunk s) \<and>
     (\<exists>c. s_PendingChunk s = Some c \<and> sealed_chunk H (s_FileID s) (length cs) c \<and>
        g_wr g = sent_msgs s cs @ [ChunkResponseBytes c]) \<and>
     g_rd g = exchanges (length cs) @ ChunkRequestBytes (s_CurrentChunk s)"
| "sender_at H s g cs StateSendKeyReveal \<longleftrightarrow>
     s_CurrentChunk s < s_TotalChunks s \<and> length cs = unat (s_CurrentChunk s) \<and>
     (\<exists>c. s_PendingChunk s = Some c \<and> sealed_chunk H (s_FileID s) (length cs) c \<and>
        g_wr g = sent_msgs s cs @ [ChunkResponseBytes c]) \<and>
     g_rd g = exchanges (Suc (length cs))"
| "sender_at H s g cs StateVerifyMerkle \<longleftrightarrow>
     s_TotalChunks s \<noteq> 0 \<and> length cs = unat (s_TotalChunks s) \<and>
     g_wr g = sent_msgs s cs \<and> g_rd g = exchanges (length cs)"
| "sender_at H s g cs StateFinished \<longleftrightarrow>
     length cs = unat (s_TotalChunks s) \<and>
     (if s_TotalChunks s = 0 then g_wr g = sent_msgs s cs \<and> g_rd g = []
      else g_wr g = sent_msgs s cs @ [RootBytes (merkle_root H (s_Leaves s))] \<and>
           g_rd g = exchanges (length cs) @ FinalAckBytes)"
| "sender_at H s g cs _ \<longleftrightarrow> False"

definition sender_inv :: "digest \<Rightarrow> Session \<Rightarrow> ghost \<Rightarrow> bool" where
  "sender_inv H s g \<longleftrightarrow> s_FileID s \<in> range H \<and>
     (\<exists>cs. sender_chunks H s cs \<and> sender_at H s g cs (s_state s))"

text \<open>
  The contract for what a sender may write: the key of chunk \<open>n\<close> goes out only when exactly
  the requests and tickets for the chunks \<open>0..n\<close> have come in.
\<close>

definition key_after_ticket :: "ghost \<Rightarrow> bytes \<Rightarrow> bool" where
  "key_after_ticket g b \<longleftrightarrow>
     (hd b = msgKeyReveal \<longrightarrow>
       (\<exists>n key. n < 2 ^ 32 \<and> b = KeyRevealBytes (word_of_nat n) key \<and> g_rd g = exchanges (Suc n)))"

text \<open>Moreover every message it writes is its turn in a conversation of the protocol; it creates no file and writes to none.\<close>

definition sender_writes :: "digest \<Rightarrow> ghost \<Rightarrow> bytes \<Rightarrow> bool" where
  "sender_writes H g b \<longleftrightarrow> key_after_ticket g b \<and> turn H RoleSender g b"

abbreviation sender_watch :: "digest \<Rightarrow> ghost \<Rightarrow> event \<Rightarrow> ghost option" where
  "sender_watch H \<equiv> watch (sender_writes H) (\<lambda>_ _. False)"

text \<open>The number of iterations the loop still has to make, at most.\<close>

fun phase_rank :: "TransferState \<Rightarrow> nat \<Rightarrow> nat" where
  "phase_rank StateIdle n = 4 * n + 3"
| "phase_rank StateSendHeader n = 4 * n + 2"
| "phase_rank StateWaitingChunkRequest n = 4 * n + 1"
| "phase_rank StateSendChunkResponse n = 4 * n"
| "phase_rank StateWaitingLotteryTicket n = 4 * n - 1"
| "phase_rank StateSendKeyReveal n = 4 * n - 2"
| "phase_rank StateVerifyMerkle n = 1"
| "phase_rank _ n = 0"

definition sender_rank :: "Session \<Rightarrow> nat" where
  "sender_rank s = phase_rank (s_state s) (unat (s_TotalChunks s) - unat (s_CurrentChunk s))"

section \<open>The steps keep the invariant\<close>

lemma sender_chunks_frame [simp]:
  "sender_chunks H (s\<lparr>s_state := st\<rparr>) cs = sender_chunks H s cs"
  "sender_chunks H (s\<lparr>s_PendingChunk := p\<rparr>) cs = sender_chunks H s cs"
  "sender_chunks H (s\<lparr>s_CurrentChunk := i\<rparr>) cs = sender_chunks H s cs"
  by (simp_all add: sender_chunks_def)

lemma sent_msgs_frame [simp]:
  "sent_msgs (s\<lparr>s_state := st\<rparr>) cs = sent_msgs s cs"
  "sent_msgs (s\<lparr>s_PendingChunk := p\<rparr>) cs = sent_msgs s cs"
  "sent_msgs (s\<lparr>s_CurrentChunk := i\<rparr>) cs = sent_msgs s cs"
  "sent_msgs (s\<lparr>s_Leaves := ls\<rparr>) cs = sent_msgs s cs"
  by (simp_all add: sent_msgs_def session_header_def)

lemma sent_msgs_snoc: "sent_msgs s (cs @ [c]) = sent_msgs s cs @ chunk_msgs c"
  by (simp add: sent_msgs_def)

lemma key_after_ticket_other [simp]: "hd b \<noteq> msgKeyReveal \<Longrightarrow> key_after_ticket g b"
  by (simp add: key_after_ticket_def)

text \<open>The chunks of a sender can be said in their order, and their messages are those of complete rounds.\<close>

lemma sender_chunks_in_order: "sender_chunks H s cs \<Longrightarrow> in_order (session_header s) cs"
  by (simp add: sender_chunks_def in_order_def sealed_chunk_def session_header_def)

lemma session_header_simps [simp]:
  "h_FileID (session_header s) = s_FileID s" "h_Reps (session_header s) = s_TotalChunks s"
  by (simp_all add: session_header_def)

lemma sender_SendHeader_ok:
  assumes "sender_inv H s g" and "s_state s = StateSendHeader"
  shows "wp (sender_watch H) (stepSenderSendHeader s) (step_post (sender_inv H) sender_rank s) g"
  using assms
  by (auto simp: stepSenderSendHeader_def wire_defs wp_try wp_ConnWrite sender_inv_def sender_writes_def
      turn_header isAllowed_iff sender_rank_def sent_msgs_def session_header_def word_gt_0
      intro!: exI [of _ "[]"] split: sum.split)

lemma sender_WaitChunkRequest_ok:
  assumes "sender_inv H s g" and "s_state s = StateWaitingChunkRequest"
  shows "wp (sender_watch H) (stepSenderWaitChunkRequest s) (step_post (sender_inv H) sender_rank s) g"
  using assms unfolding stepSenderWaitChunkRequest_def wp_try
  by (intro request_msg.dec_sound) (auto simp: sender_inv_def isAllowed_iff sender_rank_def)

lemma sender_WaitLotteryTicket_ok:
  assumes "sender_inv H s g" and "s_state s = StateWaitingLotteryTicket"
  shows "wp (sender_watch H) (stepSenderWaitLotteryTicket s) (step_post (sender_inv H) sender_rank s) g"
proof -
  have "unat (s_CurrentChunk s) < unat (s_TotalChunks s)"
    using assms by (auto simp: sender_inv_def word_less_nat_alt)
  with assms show ?thesis unfolding stepSenderWaitLotteryTicket_def wp_try
    by (intro ticket_msg.dec_sound)
      (auto simp: sender_inv_def isAllowed_iff sender_rank_def exchange_def)
qed

lemma wp_ReadChunkPlaintext:
  "(\<And>e. Q (Inl e) g) \<Longrightarrow> (\<And>b. length b \<le> unat chunkSize \<Longrightarrow> Q (Inr b) g) \<Longrightarrow>
   wph X (watch cw cf) (ReadChunkPlaintext file index chunkSize) Q g"
  unfolding ReadChunkPlaintext_def wp_bind
  by (rule wp_FileReadAt) (auto split: option.split)

lemma wp_BuildAndEncryptChunk:
  assumes "length plaintext \<le> gcm_limit" and "\<And>e g'. Q (Inl e) g'"
    and "\<And>c. sealed_chunk H fileID (unat index) c \<Longrightarrow> c_Plaintext c = plaintext \<Longrightarrow> Q (Inr c) g"
  shows "wph X (watch cw cf) (BuildAndEncryptChunk H fileID index plaintext) Q g"
  using assms unfolding BuildAndEncryptChunk_def GenerateRandomKey_def EncryptChunk_def Let_def
  by (auto simp: wp_try aes_key_ok_def sealed_chunk_def NewChunk_def ComputeResponseCommitment_def
      Keccak_eq intro!: wp_RandRead)

lemma sender_SendChunkResponse_ok:
  assumes "sender_inv H s g" and "s_state s = StateSendChunkResponse"
  shows "wp (sender_watch H) (stepSenderSendChunkResponse H s) (step_post (sender_inv H) sender_rank s) g"
proof -
  have fid: "s_FileID s \<in> range H" using assms(1) by (simp add: sender_inv_def)
  from assms obtain cs where cs: "sender_chunks H s cs" and len: "length cs = unat (s_CurrentChunk s)"
    and less: "s_CurrentChunk s < s_TotalChunks s" and wr: "g_wr g = sent_msgs s cs"
    and rd: "g_rd g = exchanges (length cs) @ ChunkRequestBytes (s_CurrentChunk s)"
    by (auto simp: sender_inv_def)
  from less have less_nat: "unat (s_CurrentChunk s) < unat (s_TotalChunks s)"
    by (simp add: word_less_nat_alt)
  have contract: "sender_writes H g (ChunkResponseBytes c)"
    if "sealed_chunk H (s_FileID s) (unat (s_CurrentChunk s)) c" for c
    using that len less_nat wr rd turn_response [OF sender_chunks_in_order [OF cs], where c = c and g = g and H = H]
    by (simp add: sender_writes_def sealed_chunk_def sent_msgs_def)
  from less_nat have post: "step_post (sender_inv H) sender_rank s
      (s\<lparr>s_PendingChunk := Some c\<rparr>, Inr StateWaitingLotteryTicket)
      (g\<lparr>g_wr := g_wr g @ [ChunkResponseBytes c]\<rparr>)"
    if "sealed_chunk H (s_FileID s) (unat (s_CurrentChunk s)) c" for c
    using that cs len less wr rd assms(2) fid
    by (auto simp: sender_inv_def isAllowed_iff sender_rank_def)
  show ?thesis
    unfolding stepSenderSendChunkResponse_def wp_try
    by (intro wp_ReadChunkPlaintext)
      (auto simp: wp_try wire_defs wp_ConnWrite post contract u32_le_gcm_limit
        intro!: wp_BuildAndEncryptChunk split: sum.split simp del: step_post_simps(2))
qed

lemma sender_chunks_snoc:
  assumes "sender_chunks H s cs" and "sealed_chunk H (s_FileID s) (length cs) c"
  shows "sender_chunks H (s\<lparr>s_Leaves := s_Leaves s @ [GenerateLeaf H c]\<rparr>) (cs @ [c])"
  using assms by (auto simp: sender_chunks_def nth_append less_Suc_eq)

lemma sender_SendKeyReveal_ok:
  assumes "sender_inv H s g" and "s_state s = StateSendKeyReveal"
  shows "wp (sender_watch H) (stepSenderSendKeyReveal H s) (step_post (sender_inv H) sender_rank s) g"
proof -
  have fid: "s_FileID s \<in> range H" using assms(1) by (simp add: sender_inv_def)
  from assms obtain cs c where cs: "sender_chunks H s cs" and len: "length cs = unat (s_CurrentChunk s)"
    and less: "s_CurrentChunk s < s_TotalChunks s" and pend: "s_PendingChunk s = Some c"
    and sealed: "sealed_chunk H (s_FileID s) (length cs) c"
    and wr: "g_wr g = sent_msgs s cs @ [ChunkResponseBytes c]"
    and rd: "g_rd g = exchanges (Suc (length cs))"
    by (auto simp: sender_inv_def)
  note nat = last_chunk_nat [OF less]
  let ?b = "KeyRevealBytes (s_CurrentChunk s) (c_Key c)"
  let ?s = "s\<lparr>s_Leaves := s_Leaves s @ [GenerateLeaf H c]\<rparr>"
  have idx: "c_Index c = s_CurrentChunk s"
    using sealed len by (simp add: sealed_chunk_def)
  have "key_after_ticket g ?b"
    using rd len u32_less [of "s_CurrentChunk s"]
    by (auto simp: key_after_ticket_def intro!: exI [of _ "length cs"])
  moreover have "turn H RoleSender g ?b"
    using turn_key [OF sender_chunks_in_order [OF cs], where c = c and g = g and H = H and k = "c_Key c"]
      less len sealed wr rd by (simp add: sealed_chunk_def sent_msgs_def word_less_nat_alt)
  ultimately have contract: "sender_writes H g ?b" by (simp add: sender_writes_def)
  have chunks: "sender_chunks H ?s (cs @ [c])"
    using cs sealed by (rule sender_chunks_snoc)
  have wr': "g_wr g @ [?b] = sent_msgs s (cs @ [c])"
    using wr idx by (simp add: sent_msgs_snoc chunk_msgs_def)
  have "sender_inv H (?s\<lparr>s_PendingChunk := None, s_state := StateVerifyMerkle\<rparr>) (g\<lparr>g_wr := g_wr g @ [?b]\<rparr>)"
    if "s_CurrentChunk s = s_TotalChunks s - 1"
    using that chunks wr' rd nat len fid
    by (auto simp: sender_inv_def intro!: exI [of _ "cs @ [c]"])
  moreover have "sender_inv H (?s\<lparr>s_PendingChunk := None, s_CurrentChunk := s_CurrentChunk s + 1,
      s_state := StateWaitingChunkRequest\<rparr>) (g\<lparr>g_wr := g_wr g @ [?b]\<rparr>)"
    if "s_CurrentChunk s \<noteq> s_TotalChunks s - 1"
    using that chunks wr' rd nat len fid
    by (auto simp: sender_inv_def intro!: exI [of _ "cs @ [c]"])
  ultimately show ?thesis
    using assms(2) pend contract nat
    by (auto simp: stepSenderSendKeyReveal_def wp_try wire_defs wp_ConnWrite IsLastChunk_def
        AdvanceChunk_def isAllowed_iff sender_rank_def word_gt_0 word_less_nat_alt Let_def
        split: sum.split)
qed

lemma sender_VerifyMerkle_ok:
  assumes "sender_inv H s g" and "s_state s = StateVerifyMerkle"
  shows "wp (sender_watch H) (stepSenderVerifyMerkle H s) (step_post (sender_inv H) sender_rank s) g"
proof -
  have fid: "s_FileID s \<in> range H" using assms(1) by (simp add: sender_inv_def)
  from assms obtain cs where cs: "sender_chunks H s cs" and at: "sender_at H s g cs StateVerifyMerkle"
    by (auto simp: sender_inv_def)
  have "sender_writes H g (RootBytes (merkle_root H (s_Leaves s)))"
    using turn_root [OF sender_chunks_in_order [OF cs], where g = g and H = H] cs at
    by (simp add: sender_writes_def sent_msgs_def sender_chunks_def)
  with cs at assms(2) fid show ?thesis
    unfolding stepSenderVerifyMerkle_def root_of_built_tree
    by (auto simp: wp_try wp_bind wire_defs wp_ConnWrite sender_inv_def isAllowed_iff sender_rank_def
        intro!: ack_msg.dec_sound exI [of _ cs] split: sum.split)
qed

interpretation sender: step_table "senderSteps H" "sender_watch H" "sender_inv H" sender_rank for H
proof
  fix s m
  assume inv: "sender_inv H s m"
  then show "s_state s \<noteq> StateError" by (auto simp: sender_inv_def)
  assume "s_state s \<noteq> StateFinished"
  with inv show "\<exists>step. senderSteps H (s_state s) = Some step"
    by (cases "s_state s") (auto simp: sender_inv_def)
next
  fix s m step
  assume inv: "sender_inv H s m" and fin: "s_state s \<noteq> StateFinished"
    and step: "senderSteps H (s_state s) = Some step"
  show "wp (sender_watch H) (step s) (step_post (sender_inv H) sender_rank s) m"
  proof (cases "s_state s")
    case StateIdle
    with inv step show ?thesis
      by (auto simp: stepSenderIdle_def sender_inv_def isAllowed_iff sender_rank_def)
  qed (use inv fin step in \<open>auto intro: sender_SendHeader_ok sender_WaitChunkRequest_ok
      sender_SendChunkResponse_ok sender_WaitLotteryTicket_ok sender_SendKeyReveal_ok
      sender_VerifyMerkle_ok\<close>)
qed simp

section \<open>\<^verbatim>\<open>SendFile\<close> in an arbitrary environment\<close>

text \<open>The ways \<^verbatim>\<open>SendFile\<close> can stop the process: before the session exists.\<close>

definition sendfile_halt :: "halt \<Rightarrow> ghost \<Rightarrow> bool" where
  "sendfile_halt h g \<longleftrightarrow> g = ghost_init \<and>
     h \<in> range (Fatal ''Error reading the file:'') \<union> range (Fatal ''Error reading stats of the file'') \<union>
         {Panic ''invalid memory address or nil pointer dereference''}"

definition sendfile_post :: "digest \<Rightarrow> nat \<Rightarrow> run_result \<Rightarrow> ghost \<Rightarrow> bool" where
  "sendfile_post H fuel res g \<longleftrightarrow>
     (case res of
        OutOfFuel \<Rightarrow> fuel < 2 ^ 34
      | Returned s None \<Rightarrow> s_state s = StateFinished \<and> sender_inv H s g
      | Returned s (Some err) \<Rightarrow> s_state s = StateError \<and>
          (\<exists>st e. err = Errorf ''step %s failed: %w'' [AStr (state_String st), AErr e]))"

lemma sender_inv_close [simp]: "sender_inv H s (g\<lparr>g_cl := l\<rparr>) = sender_inv H s g"
proof -
  have "sender_at H s (g\<lparr>g_cl := l\<rparr>) cs st = sender_at H s g cs st" for cs st
    by (cases st) simp_all
  then show ?thesis by (simp add: sender_inv_def)
qed

lemma sender_session_start:
  "fileID \<in> range H \<Longrightarrow> sender_inv H (sender_session f fileID h) ghost_init"
  "sender_rank (sender_session f fileID h) < 2 ^ 34"
  using u32_less [of "h_Reps h"]
  by (auto simp: sender_inv_def sender_chunks_def sender_session_def NewSession_def ghost_init_def
      sender_rank_def intro!: exI [of _ "[]"])

lemma sender_run:
  "fileID \<in> range H \<Longrightarrow> wph sendfile_halt (sender_watch H)
     (io_bind (Run fuel (sender_session f fileID h) (senderSteps H))
       (\<lambda>res. io_bind (FileClose (Some f)) (\<lambda>_. Ret res)))
     (sendfile_post H fuel) ghost_init"
  unfolding wp_bind
proof (rule wph_mono [OF sender.run_wp [OF sender_session_start(1)]], assumption)
  fix res g
  assume "sender.run_post H (fuel \<le> sender_rank (sender_session f fileID h)) res g"
  then have "sendfile_post H fuel res (g\<lparr>g_cl := g_cl g @ [f]\<rparr>)"
    using sender_session_start(2) [of f fileID h]
    by (auto simp: sender.run_post_def sendfile_post_def split: run_result.splits option.splits)
  then show "wph sendfile_halt (sender_watch H) (FileClose (Some f))
      (\<lambda>_. wph sendfile_halt (sender_watch H) (Ret res) (sendfile_post H fuel)) g"
    by (intro wp_FileClose) simp
qed simp

lemma SendFile_wp: "wph sendfile_halt (sender_watch H) (SendFile H fuel path) (sendfile_post H fuel) ghost_init"
  unfolding SendFile_def generateFileID_def PrepareMetadata_def Let_def OpenFile_def FileStat_def
    TimeNow_def
  by (auto simp: io_bind_assoc watch_def sendfile_halt_def Keccak_eq intro!: sender_run split: option.split)

text \<open>C3: whatever the peer, the disk and the random source do, when \<^verbatim>\<open>SendFile\<close> writes a key
  reveal, it is the reveal for some chunk \<open>n\<close>, and the bytes it has read from the peer by then
  are exactly the requests and the lottery tickets for the chunks \<open>0\<close> to \<open>n\<close>: no key is
  revealed before its ticket.\<close>

theorem sender_key_after_ticket:
  assumes "exec (SendFile H fuel path) (xs @ (QWrite b, r) # ys) = Some p"
    and "hd b = msgKeyReveal"
  shows "\<exists>n key. n < 2 ^ 32 \<and> b = KeyRevealBytes (word_of_nat n) key \<and>
    g_rd (observed xs) = exchanges (Suc n)"
  using wp_watch_contract [OF SendFile_wp assms(1)] assms(2)
  by (simp add: sender_writes_def key_after_ticket_def)


text \<open>C18: \<^verbatim>\<open>SendFile\<close> ends. With fuel for \<open>2 ^ 34\<close> iterations (four per chunk and four more, for
  any number of chunks a header can announce) every execution, in any environment, makes a bounded
  number of calls, and when there is no further call it has either stopped the process before the
  first message or returned; it never runs out of fuel, and an error it returns is one a step
  reported, with the session in the error state: never an illegal transition, never a state without
  a step.\<close>

theorem sender_terminates:
  assumes "exec (SendFile H (2 ^ 34) path) es = Some p"
  shows "length es \<le> 11 * 2 ^ 34 + 5 \<and>
    (\<forall>res. p = Ret res \<longrightarrow>
      (\<exists>s. res = Returned s None \<and> s_state s = StateFinished) \<or>
      (\<exists>s st e. res = Returned s (Some (Errorf ''step %s failed: %w'' [AStr (state_String st), AErr e])) \<and>
         s_state s = StateError))"
proof (intro conjI allI impI)
  show "length es \<le> 11 * 2 ^ 34 + 5" by (rule at_most_exec [OF SendFile_at_most assms])
next
  fix res
  assume "p = Ret res"
  with assms have "exec (SendFile H (2 ^ 34) path) es = Some (Ret res)" by (simp only:)
  from wp_watch_result [OF SendFile_wp this] show
    "(\<exists>s. res = Returned s None \<and> s_state s = StateFinished) \<or>
      (\<exists>s st e. res = Returned s (Some (Errorf ''step %s failed: %w'' [AStr (state_String st), AErr e])) \<and>
         s_state s = StateError)"
    by (auto simp: sendfile_post_def split: run_result.splits option.splits)
qed

text \<open>The whole conversation of a \<^verbatim>\<open>SendFile\<close> that succeeded.\<close>

lemma SendFile_history:
  assumes "exec (SendFile H fuel path) es = Some (Ret (Returned s None))"
  shows "s_FileID s \<in> range H \<and> (\<exists>cs. length cs = unat (s_TotalChunks s) \<and>
    (\<forall>i<length cs. sealed_chunk H (s_FileID s) i (cs ! i)) \<and>
    (if cs = [] then g_wr (observed es) = [HeaderBytes (session_header s)] \<and> g_rd (observed es) = []
     else g_wr (observed es) = HeaderBytes (session_header s) # concat (map chunk_msgs cs) @
            [RootBytes (merkle_root H (map (GenerateLeaf H) cs))] \<and>
          g_rd (observed es) = exchanges (length cs) @ FinalAckBytes))"
proof -
  from wp_watch_result [OF SendFile_wp assms] have "s_state s = StateFinished"
    and inv: "sender_inv H s (observed es)"
    by (simp_all add: sendfile_post_def)
  then obtain cs where "sender_chunks H s cs" and "sender_at H s (observed es) cs StateFinished"
    by (auto simp: sender_inv_def)
  then show ?thesis
    using inv by (intro conjI exI [of _ cs]) (auto simp: sender_inv_def sender_chunks_def sent_msgs_def unat_eq_0 split: if_splits)
qed

text \<open>C14: when \<^verbatim>\<open>SendFile\<close> returns without an error, there are as many chunks as the header
  announced, each encrypted under its own 32-byte key with a matching commitment, the file id is a digest, and the
  conversation was exactly: the header, for every chunk its response and then its key, and the
  root over the chunks' leaves, against a request and a ticket for every chunk and the final
  acknowledgement (for an empty file: the header alone).\<close>

theorem sender_finished:
  assumes "exec (SendFile H fuel path) es = Some (Ret (Returned s None))"
  shows "s_FileID s \<in> range H \<and> (\<exists>cs. length cs = unat (s_TotalChunks s) \<and>
    (\<forall>i<length cs. sealed_chunk H (s_FileID s) i (cs ! i)) \<and>
    (if cs = [] then g_wr (observed es) = [HeaderBytes (session_header s)] \<and> g_rd (observed es) = []
     else g_wr (observed es) = HeaderBytes (session_header s) # concat (map chunk_msgs cs) @
            [RootBytes (merkle_root H (map (GenerateLeaf H) cs))] \<and>
          g_rd (observed es) = exchanges (length cs) @ FinalAckBytes))"
  using assms by (rule SendFile_history)

text \<open>
  What a sender seals a receiver can open: for the chunk \<^verbatim>\<open>BuildAndEncryptChunk\<close> returns, with any
  key and nonce from the random source.
\<close>

lemma sealed_chunk_opens:
  assumes "sealed_chunk H fileID i c" and "length (c_Plaintext c) \<le> gcm_limit"
  shows "DecryptAndCheck H ((received_chunk fileID c)\<lparr>c_Key := c_Key c\<rparr>) =
    Ret ((received_chunk fileID c)\<lparr>c_Key := c_Key c, c_Plaintext := c_Plaintext c\<rparr>, Inr (c_Plaintext c))"
  using assms unfolding DecryptAndCheck_accepts
  by (simp add: sealed_chunk_def received_chunk_def aes_key_ok_def gcm_roundtrip)

text \<open>C25: encrypt, then decrypt. Whatever bytes the random source delivers, the chunk that
  \<^verbatim>\<open>BuildAndEncryptChunk\<close> returns for a plaintext, cut down to what a receiver gets on the wire and
  completed with the revealed key, passes \<^verbatim>\<open>DecryptAndCheck\<close> and yields that plaintext.\<close>

theorem encrypt_decrypt:
  assumes "exec (BuildAndEncryptChunk H fileID index plaintext) es = Some (Ret (Inr c))"
    and "length plaintext \<le> gcm_limit"
  shows "\<exists>c'. DecryptAndCheck H ((received_chunk fileID c)\<lparr>c_Key := c_Key c\<rparr>) = Ret (c', Inr plaintext) \<and>
    c_Index c' = index \<and> GenerateLeaf H c' = GenerateLeaf H c"
proof -
  have "wph (\<lambda>_ _. True) (watch (\<lambda>_ _. True) (\<lambda>_ _. True)) (BuildAndEncryptChunk H fileID index plaintext)
      (\<lambda>r _. \<forall>c. r = Inr c \<longrightarrow> sealed_chunk H fileID (unat index) c \<and> c_Plaintext c = plaintext) ghost_init"
    using assms(2) by (intro wp_BuildAndEncryptChunk) auto
  from wp_watch_result [OF this assms(1)] have sealed: "sealed_chunk H fileID (unat index) c"
    and plain: "c_Plaintext c = plaintext" by simp_all
  then have "c_FileID c = fileID" "c_Index c = index" by (simp_all add: sealed_chunk_def)
  with sealed_chunk_opens [OF sealed] plain assms(2) show ?thesis
    by (simp add: GenerateLeaf_def received_chunk_def)
qed

end
