(* ===== verification/Receiver.thy ===== *)
theory Receiver
  imports Exchange
begin

text \<open>
  The receiver in an arbitrary environment: the peer may send any bytes. The invariant says
  what a session at the head of the loop knows about the bytes it has read: they are a header
  and, for each chunk so far, a response and a key that open to the plaintext written to the
  file and match the commitment. \<open>receiverSteps\<close> keeps the contract of \<open>step_table\<close> with it.
\<close>

section \<open>The history of a receiver\<close>

definition accepted_chunk :: "digest \<Rightarrow> bytes \<Rightarrow> nat \<Rightarrow> Chunk \<Rightarrow> bool" where
  "accepted_chunk H fileID i c \<longleftrightarrow>
     response_ok c \<and> c_FileID c = fileID \<and> c_Index c = word_of_nat i \<and>
     length (c_Key c) = KeySize \<and>
     gcm_Open (c_Key c) (c_Nonce c) (c_Ciphertext c) = Some (c_Plaintext c) \<and>
     H (c_Key c @ c_Plaintext c) = c_HResp c"

definition output_path :: "MetaData \<Rightarrow> string" where
  "output_path h = ''./received/'' @ h_Name h"

definition stored :: "MetaData \<Rightarrow> Chunk list \<Rightarrow> (string \<times> bytes) list" where
  "stored h cs = map (\<lambda>c. (output_path h, c_Plaintext c)) cs"

text \<open>\<open>h\<close> is the header that was received, \<open>cs\<close> are the chunks accepted so far.\<close>

definition receiver_chunks :: "digest \<Rightarrow> Session \<Rightarrow> MetaData \<Rightarrow> Chunk list \<Rightarrow> bool" where
  "receiver_chunks H s h cs \<longleftrightarrow>
     header_ok h \<and> s_FileID s = h_FileID h \<and> s_FileName s = h_Name h \<and>
     s_TotalChunks s = h_Reps h \<and> s_File s = Some (output_path h) \<and>
     s_Leaves s = map (GenerateLeaf H) cs \<and>
     (\<forall>i<length cs. accepted_chunk H (h_FileID h) i (cs ! i))"

text \<open>The chunk in flight: its response has been read.\<close>

definition pending_response :: "Session \<Rightarrow> MetaData \<Rightarrow> Chunk \<Rightarrow> bool" where
  "pending_response s h c \<longleftrightarrow>
     s_PendingChunk s = Some c \<and> response_ok c \<and> c_FileID c = h_FileID h \<and>
     c_Index c = s_CurrentChunk s"

fun receiver_at :: "digest \<Rightarrow> Session \<Rightarrow> ghost \<Rightarrow> MetaData \<Rightarrow> Chunk list \<Rightarrow> TransferState \<Rightarrow> bool" where
  "receiver_at H s g h cs StateSendChunkRequest \<longleftrightarrow>
     s_CurrentChunk s < s_TotalChunks s \<and> length cs = unat (s_CurrentChunk s) \<and>
     g_wr g = request_msgs (length cs) \<and> g_rd g = HeaderBytes h @ chunk_stream cs \<and> g_cl g = []"
| "receiver_at H s g h cs StateWaitingChunkResponse \<longleftrightarrow>
     s_CurrentChunk s < s_TotalChunks s \<and> length cs = unat (s_CurrentChunk s) \<and>
     g_wr g = request_msgs (length cs) @ [ChunkRequestBytes (s_CurrentChunk s)] \<and>
     g_rd g = HeaderBytes h @ chunk_stream cs \<and> g_cl g = []"
| "receiver_at H s g h cs StateSendLotteryTicket \<longleftrightarrow>
     s_CurrentChunk s < s_TotalChunks s \<and> length cs = unat (s_CurrentChunk s) \<and>
     g_wr g = request_msgs (length cs) @ [ChunkRequestBytes (s_CurrentChunk s)] \<and>
     (\<exists>c. pending_response s h c \<and> g_rd g = HeaderBytes h @ chunk_stream cs @ ChunkResponseBytes c) \<and>
     g_cl g = []"
| "receiver_at H s g h cs StateWaitingKeyReveal \<longleftrightarrow>
     s_CurrentChunk s < s_TotalChunks s \<and> length cs = unat (s_CurrentChunk s) \<and>
     g_wr g = request_msgs (Suc (length cs)) \<and>
     (\<exists>c. pending_response s h c \<and> g_rd g = HeaderBytes h @ chunk_stream cs @ ChunkResponseBytes c) \<and>
     g_cl g = []"
| "receiver_at H s g h cs StateVerifyChunk \<longleftrightarrow>
     s_CurrentChunk s < s_TotalChunks s \<and> length cs = unat (s_CurrentChunk s) \<and>
     g_wr g = request_msgs (Suc (length cs)) \<and>
     (\<exists>c. pending_response s h c \<and> length (c_Key c) = KeySize \<and>
        g_rd g = HeaderBytes h @ chunk_stream (cs @ [c])) \<and>
     g_cl g = []"
| "receiver_at H s g h cs StateVerifyMerkle \<longleftrightarrow>
     s_TotalChunks s \<noteq> 0 \<and> length cs = unat (s_TotalChunks s) \<and>
     g_wr g = request_msgs (length cs) \<and> g_rd g = HeaderBytes h @ chunk_stream cs \<and> g_cl g = []"
| "receiver_at H s g h cs StateFinished \<longleftrightarrow>
     length cs = unat (s_TotalChunks s) \<and>
     (if s_TotalChunks s = 0 then g_wr g = [] \<and> g_rd g = HeaderBytes h
      else g_wr g = request_msgs (length cs) @ [FinalAckBytes] \<and>
           g_rd g = HeaderBytes h @ chunk_stream cs @ RootBytes (merkle_root H (map (GenerateLeaf H) cs))) \<and>
     g_cl g = [output_path h]"
| "receiver_at H s g h cs _ \<longleftrightarrow> False"

definition receiver_started :: "digest \<Rightarrow> Session \<Rightarrow> ghost \<Rightarrow> MetaData \<Rightarrow> Chunk list \<Rightarrow> bool" where
  "receiver_started H s g h cs \<longleftrightarrow>
     receiver_chunks H s h cs \<and> g_cr g = [output_path h] \<and> g_fw g = stored h cs \<and>
     receiver_at H s g h cs (s_state s)"

definition receiver_inv :: "digest \<Rightarrow> Session \<Rightarrow> ghost \<Rightarrow> bool" where
  "receiver_inv H s g \<longleftrightarrow>
     (if s_state s \<in> {StateIdle, StateReceiveHeader}
      then g = ghost_init \<and> s_CurrentChunk s = 0 \<and> s_Leaves s = []
      else \<exists>h cs. receiver_started H s g h cs)"

text \<open>
  The contracts. A ticket for chunk \<open>n\<close> is written only when a response for it has arrived;
  the final acknowledgement only when every chunk has been accepted and stored and the peer's
  root is the root over the accepted chunks; bytes go to the file only when a response and a
  key have been read that open to them and match the commitment. Moreover every message it writes
  is its turn in a conversation of the protocol.
\<close>

definition verified_so_far :: "digest \<Rightarrow> ghost \<Rightarrow> MetaData \<Rightarrow> Chunk list \<Rightarrow> bytes \<Rightarrow> bool" where
  "verified_so_far H g h cs tail \<longleftrightarrow>
     header_ok h \<and> (\<forall>i<length cs. accepted_chunk H (h_FileID h) i (cs ! i)) \<and>
     g_rd g = HeaderBytes h @ chunk_stream cs @ tail \<and> g_fw g = stored h cs"

definition receiver_writes :: "digest \<Rightarrow> ghost \<Rightarrow> bytes \<Rightarrow> bool" where
  "receiver_writes H g b \<longleftrightarrow>
     (hd b = msgLotteryTicket \<longrightarrow>
       (\<exists>h cs c. verified_so_far H g h cs (ChunkResponseBytes c) \<and> response_ok c \<and>
          c_Index c = word_of_nat (length cs) \<and> b = LotteryTicketBytes (c_Index c))) \<and>
     (hd b = msgFinalAck \<longrightarrow>
       (\<exists>h cs. verified_so_far H g h cs (RootBytes (merkle_root H (map (GenerateLeaf H) cs))) \<and>
          length cs = unat (h_Reps h))) \<and>
     turn H RoleReceiver g b"

text \<open>One file is created, for the name in the header that is all that has been read; blocks go to this file.\<close>

definition receiver_creates :: "ghost \<Rightarrow> string \<Rightarrow> bool" where
  "receiver_creates g p \<longleftrightarrow>
     g_cr g = [] \<and> (\<exists>h. header_ok h \<and> g_rd g = HeaderBytes h \<and> p = output_path h)"

definition receiver_stores :: "digest \<Rightarrow> ghost \<Rightarrow> string \<Rightarrow> bytes \<Rightarrow> bool" where
  "receiver_stores H g p b \<longleftrightarrow>
     (\<exists>h cs c. g_cr g = [p] \<and> p = output_path h \<and> verified_so_far H g h cs (ChunkResponseBytes c @ KeyRevealBytes (c_Index c) (c_Key c)) \<and>
        accepted_chunk H (h_FileID h) (length cs) c \<and> b = c_Plaintext c)"

fun receiver_files :: "digest \<Rightarrow> ghost \<Rightarrow> req \<Rightarrow> bool" where
  "receiver_files H g (QFCreate p) = receiver_creates g p"
| "receiver_files H g (QFWrite p b) = receiver_stores H g p b"
| "receiver_files H g _ = True"

abbreviation receiver_watch :: "digest \<Rightarrow> ghost \<Rightarrow> event \<Rightarrow> ghost option" where
  "receiver_watch H \<equiv> watch (receiver_writes H) (receiver_files H)"

fun receiver_phase_rank :: "TransferState \<Rightarrow> nat \<Rightarrow> nat" where
  "receiver_phase_rank StateIdle n = 5 * 2 ^ 32 + 3"
| "receiver_phase_rank StateReceiveHeader n = 5 * 2 ^ 32 + 2"
| "receiver_phase_rank StateSendChunkRequest n = 5 * n + 1"
| "receiver_phase_rank StateWaitingChunkResponse n = 5 * n"
| "receiver_phase_rank StateSendLotteryTicket n = 5 * n - 1"
| "receiver_phase_rank StateWaitingKeyReveal n = 5 * n - 2"
| "receiver_phase_rank StateVerifyChunk n = 5 * n - 3"
| "receiver_phase_rank StateVerifyMerkle n = 1"
| "receiver_phase_rank _ n = 0"

definition receiver_rank :: "Session \<Rightarrow> nat" where
  "receiver_rank s =
     receiver_phase_rank (s_state s) (unat (s_TotalChunks s) - unat (s_CurrentChunk s))"

section \<open>The steps keep the invariant\<close>

lemma receiver_writes_other:
  "hd b \<noteq> msgLotteryTicket \<Longrightarrow> hd b \<noteq> msgFinalAck \<Longrightarrow> receiver_writes H g b = turn H RoleReceiver g b"
  by (simp add: receiver_writes_def)

lemma accepted_in_order:
  "\<forall>i<length cs. accepted_chunk H (h_FileID h) i (cs ! i) \<Longrightarrow> in_order h cs"
  by (simp add: in_order_def accepted_chunk_def)

lemma receiver_chunks_in_order: "receiver_chunks H s h cs \<Longrightarrow> in_order h cs \<and> h_Reps h = s_TotalChunks s"
  by (auto simp: receiver_chunks_def intro: accepted_in_order)

lemma receiver_chunks_frame [simp]:
  "receiver_chunks H (s\<lparr>s_state := st\<rparr>) h cs = receiver_chunks H s h cs"
  "receiver_chunks H (s\<lparr>s_PendingChunk := p\<rparr>) h cs = receiver_chunks H s h cs"
  "receiver_chunks H (s\<lparr>s_CurrentChunk := i\<rparr>) h cs = receiver_chunks H s h cs"
  by (simp_all add: receiver_chunks_def)

lemma pending_response_frame [simp]:
  "pending_response (s\<lparr>s_state := st\<rparr>) h c = pending_response s h c"
  by (simp add: pending_response_def)

lemma receiver_inv_started:
  "receiver_inv H s g \<Longrightarrow> s_state s \<notin> {StateIdle, StateReceiveHeader} \<Longrightarrow>
     \<exists>h cs. receiver_started H s g h cs"
  by (simp add: receiver_inv_def)

lemma receiver_invI:
  "receiver_started H s g h cs \<Longrightarrow> s_state s \<notin> {StateIdle, StateReceiveHeader} \<Longrightarrow> receiver_inv H s g"
  by (auto simp: receiver_inv_def)

lemma receiver_ReceiveHeader_ok:
  assumes "receiver_inv H s g" and "s_state s = StateReceiveHeader"
  shows "wp (receiver_watch H) (stepReceiverReceiveHeader s) (step_post (receiver_inv H) receiver_rank s) g"
proof -
  from assms have fresh: "g_rd g = []" "g_wr g = []" "g_cr g = []" "g_fw g = []" "g_cl g = []"
    "s_CurrentChunk s = 0" "s_Leaves s = []"
    by (auto simp: receiver_inv_def ghost_init_def)
  let ?s = "\<lambda>h st. s\<lparr>s_FileID := h_FileID h, s_FileName := h_Name h,
    s_FileSize := ucast (h_FileSize h), s_TotalChunks := h_Reps h, s_File := Some (output_path h),
    s_state := st\<rparr>"
  let ?g = "\<lambda>h. g\<lparr>g_rd := HeaderBytes h, g_cr := [output_path h]\<rparr>"
  have rank: "5 * unat (h_Reps h) < 21474836481" for h
    using u32_less [of "h_Reps h"] by simp
  have empty: "receiver_inv H (?s h StateFinished) (?g h\<lparr>g_cl := [output_path h]\<rparr>)"
    if "header_ok h" "h_Reps h = 0" for h
    using that fresh
    by (intro receiver_invI [of _ _ _ h "[]"])
      (simp_all add: receiver_started_def receiver_chunks_def stored_def)
  have first: "receiver_inv H (?s h StateSendChunkRequest) (?g h)"
    if "header_ok h" "h_Reps h \<noteq> 0" for h
    using that fresh
    by (intro receiver_invI [of _ _ _ h "[]"])
      (simp_all add: receiver_started_def receiver_chunks_def stored_def word_gt_0)
  have "receiver_creates (g\<lparr>g_rd := HeaderBytes h\<rparr>) (output_path h)" if "header_ok h" for h
    using that fresh by (auto simp: receiver_creates_def)
  then show ?thesis
    using assms(2) fresh rank empty first
    unfolding stepReceiverReceiveHeader_def wp_try Let_def output_path_def [symmetric]
    by (intro header_msg.dec_sound)
      (auto simp: wp_bind wp_try isAllowed_iff receiver_rank_def less_Suc_eq_le
        intro!: wp_MkdirAll wp_CreateFile wp_FileClose split: sum.split)
qed

lemma receiver_SendChunkRequest_ok:
  assumes "receiver_inv H s g" and "s_state s = StateSendChunkRequest"
  shows "wp (receiver_watch H) (stepReceiverSendChunkRequest s)
    (step_post (receiver_inv H) receiver_rank s) g"
proof -
  from assms obtain h cs where st: "receiver_started H s g h cs"
    using receiver_inv_started by fastforce
  have "turn H RoleReceiver g (ChunkRequestBytes (s_CurrentChunk s))"
    using st assms(2) receiver_chunks_in_order [of H s h cs] turn_request [where g = g and h = h and cs = cs and H = H]
    by (simp add: receiver_started_def word_less_nat_alt)
  then have "receiver_writes H g (ChunkRequestBytes (s_CurrentChunk s))"
    by (simp add: receiver_writes_other)
  then show ?thesis
    using st assms(2) unfolding stepReceiverSendChunkRequest_def wp_try wire_defs
    by (auto simp: wp_ConnWrite isAllowed_iff receiver_rank_def receiver_started_def
        intro!: receiver_invI [of _ _ _ h cs] split: sum.split)
qed

lemma receiver_WaitChunkResponse_ok:
  assumes "receiver_inv H s g" and "s_state s = StateWaitingChunkResponse"
  shows "wp (receiver_watch H) (stepReceiverWaitChunkResponse s)
    (step_post (receiver_inv H) receiver_rank s) g"
proof -
  from assms obtain h cs where st: "receiver_started H s g h cs"
    using receiver_inv_started by fastforce
  then have less: "unat (s_CurrentChunk s) < unat (s_TotalChunks s)"
    using assms(2) by (simp add: receiver_started_def word_less_nat_alt)
  have inv: "receiver_inv H (s\<lparr>s_PendingChunk := Some (received_chunk (s_FileID s) c),
      s_state := StateSendLotteryTicket\<rparr>) (g\<lparr>g_rd := g_rd g @ ChunkResponseBytes c\<rparr>)"
    if "response_ok c" "c_Index c = s_CurrentChunk s" for c
    using st assms(2) that
    by (auto simp: receiver_started_def pending_response_def receiver_chunks_def
        intro!: receiver_invI [of _ _ _ h cs] exI [of _ "received_chunk (s_FileID s) c"])
  show ?thesis
    using assms(2) less inv unfolding stepReceiverWaitChunkResponse_def wp_try
    by (intro response_msg.dec_sound)
      (auto simp: isAllowed_iff receiver_rank_def)
qed

lemma receiver_SendLotteryTicket_ok:
  assumes "receiver_inv H s g" and "s_state s = StateSendLotteryTicket"
  shows "wp (receiver_watch H) (stepReceiverSendLotteryTicket s)
    (step_post (receiver_inv H) receiver_rank s) g"
proof -
  from assms obtain h cs where st: "receiver_started H s g h cs"
    using receiver_inv_started by fastforce
  then obtain c where c: "pending_response s h c" and len: "length cs = unat (s_CurrentChunk s)"
    and rd: "g_rd g = HeaderBytes h @ chunk_stream cs @ ChunkResponseBytes c"
    and less: "unat (s_CurrentChunk s) < unat (s_TotalChunks s)"
    using assms(2) by (auto simp: receiver_started_def word_less_nat_alt)
  have "turn H RoleReceiver g (LotteryTicketBytes (s_CurrentChunk s))"
    using st assms(2) c len rd less receiver_chunks_in_order [of H s h cs]
      turn_ticket [where g = g and h = h and cs = cs and H = H and c = c]
    by (simp add: receiver_started_def pending_response_def)
  then have "receiver_writes H g (LotteryTicketBytes (s_CurrentChunk s))"
    using st c len rd
    by (auto simp: receiver_writes_def pending_response_def receiver_started_def
        receiver_chunks_def verified_so_far_def intro!: exI [of _ h] exI [of _ cs] exI [of _ c])
  then show ?thesis
    using st assms(2) c rd less unfolding stepReceiverSendLotteryTicket_def wp_try wire_defs
    by (auto simp: wp_ConnWrite isAllowed_iff receiver_rank_def receiver_started_def
        intro!: receiver_invI [of _ _ _ h cs] split: sum.split)
qed

lemma receiver_WaitKeyReveal_ok:
  assumes "receiver_inv H s g" and "s_state s = StateWaitingKeyReveal"
  shows "wp (receiver_watch H) (stepReceiverWaitKeyReveal s)
    (step_post (receiver_inv H) receiver_rank s) g"
proof -
  from assms obtain h cs where st: "receiver_started H s g h cs"
    using receiver_inv_started by fastforce
  then obtain c where c: "pending_response s h c"
    and rd: "g_rd g = HeaderBytes h @ chunk_stream cs @ ChunkResponseBytes c"
    and less: "unat (s_CurrentChunk s) < unat (s_TotalChunks s)"
    using assms(2) by (auto simp: receiver_started_def word_less_nat_alt)
  have pend: "s_PendingChunk s = Some c" using c by (simp add: pending_response_def)
  have inv: "receiver_inv H (s\<lparr>s_PendingChunk := Some (c\<lparr>c_Key := k\<rparr>), s_state := StateVerifyChunk\<rparr>)
      (g\<lparr>g_rd := g_rd g @ KeyRevealBytes (s_CurrentChunk s) k\<rparr>)" if "length k = KeySize" for k
    using st assms(2) that c rd
    by (auto simp: receiver_started_def pending_response_def
        intro!: receiver_invI [of _ _ _ h cs] exI [of _ "c\<lparr>c_Key := k\<rparr>"])
  show ?thesis
    using assms(2) less inv pend unfolding stepReceiverWaitKeyReveal_def wp_try
    by (intro key_msg.dec_sound) (auto simp: isAllowed_iff receiver_rank_def)
qed

lemma receiver_chunks_snoc:
  assumes "receiver_chunks H s h cs" and "accepted_chunk H (h_FileID h) (length cs) c"
  shows "receiver_chunks H (s\<lparr>s_Leaves := s_Leaves s @ [GenerateLeaf H c]\<rparr>) h (cs @ [c])"
  using assms by (auto simp: receiver_chunks_def nth_append less_Suc_eq)

text \<open>
  A chunk \<open>c\<close> that opened to \<open>p\<close> and matched its commitment: it may be stored, and with its
  leaf appended the session satisfies the invariant of either next state.
\<close>

lemma receiver_accept:
  assumes "receiver_started H s g h cs" and "s_state s = StateVerifyChunk"
    and c: "pending_response s h c" and key: "length (c_Key c) = KeySize"
    and rd: "g_rd g = HeaderBytes h @ chunk_stream (cs @ [c])"
    and opn: "gcm_Open (c_Key c) (c_Nonce c) (c_Ciphertext c) = Some p"
    and hresp: "H (c_Key c @ p) = c_HResp c"
  defines "s' \<equiv> s\<lparr>s_Leaves := s_Leaves s @ [GenerateLeaf H c]\<rparr>"
    and "g' \<equiv> g\<lparr>g_fw := g_fw g @ [(output_path h, p)]\<rparr>"
  shows "receiver_stores H g (output_path h) p"
    and "s_CurrentChunk s = s_TotalChunks s - 1 \<Longrightarrow>
      receiver_inv H (s'\<lparr>s_PendingChunk := None, s_state := StateVerifyMerkle\<rparr>) g'"
    and "s_CurrentChunk s \<noteq> s_TotalChunks s - 1 \<Longrightarrow>
      receiver_inv H (s'\<lparr>s_PendingChunk := None, s_CurrentChunk := s_CurrentChunk s + 1,
        s_state := StateSendChunkRequest\<rparr>) g'"
proof -
  let ?c = "c\<lparr>c_Plaintext := p\<rparr>"
  have less: "s_CurrentChunk s < s_TotalChunks s" and len: "length cs = unat (s_CurrentChunk s)"
    using assms(1,2) by (auto simp: receiver_started_def)
  note nat = last_chunk_nat [OF less]
  have acc: "accepted_chunk H (h_FileID h) (length cs) ?c"
    using c key len opn hresp by (simp add: accepted_chunk_def pending_response_def)
  have stream: "chunk_stream (cs @ [?c]) = chunk_stream (cs @ [c])" by simp
  show "receiver_stores H g (output_path h) p"
    unfolding receiver_stores_def using acc rd assms(1)
    by (intro exI [of _ h] exI [of _ cs] exI [of _ ?c])
      (simp add: verified_so_far_def receiver_started_def receiver_chunks_def)
  have chunks: "receiver_chunks H s' h (cs @ [?c])" and fw: "g_fw g' = stored h (cs @ [?c])"
    using assms(1) receiver_chunks_snoc [OF _ acc, of s]
    by (simp_all add: receiver_started_def stored_def s'_def g'_def)
  show "receiver_inv H (s'\<lparr>s_PendingChunk := None, s_state := StateVerifyMerkle\<rparr>) g'"
    if "s_CurrentChunk s = s_TotalChunks s - 1"
    using that chunks fw assms(1,2) rd stream nat len
    by (intro receiver_invI [of _ _ _ h "cs @ [?c]"]) (auto simp: receiver_started_def s'_def g'_def)
  show "receiver_inv H (s'\<lparr>s_PendingChunk := None, s_CurrentChunk := s_CurrentChunk s + 1,
      s_state := StateSendChunkRequest\<rparr>) g'"
    if "s_CurrentChunk s \<noteq> s_TotalChunks s - 1"
    using that chunks fw assms(1,2) rd stream nat len
    by (intro receiver_invI [of _ _ _ h "cs @ [?c]"]) (auto simp: receiver_started_def s'_def g'_def)
qed

lemma receiver_VerifyChunk_ok:
  assumes "receiver_inv H s g" and "s_state s = StateVerifyChunk"
  shows "wp (receiver_watch H) (stepReceiverVerifyChunk H s)
    (step_post (receiver_inv H) receiver_rank s) g"
proof -
  from assms obtain h cs where st: "receiver_started H s g h cs"
    using receiver_inv_started by fastforce
  then obtain c where c: "pending_response s h c" and key: "length (c_Key c) = KeySize"
    and rd: "g_rd g = HeaderBytes h @ chunk_stream (cs @ [c])"
    and less: "s_CurrentChunk s < s_TotalChunks s"
    using assms(2) by (auto simp: receiver_started_def)
  have pend: "s_PendingChunk s = Some c" and path: "s_File s = Some (output_path h)"
    and nonce: "length (c_Nonce c) = NonceSize"
    using c st by (simp_all add: pending_response_def receiver_started_def receiver_chunks_def
        response_ok_def)
  note accept = receiver_accept [OF st assms(2) c key rd]
  show ?thesis
    unfolding stepReceiverVerifyChunk_def pend option.case wp_bind
    by (rule DecryptAndCheck_wp [OF nonce])
      (use last_chunk_nat [OF less] accept assms(2) path in
        \<open>auto simp: wp_try IsLastChunk_def AdvanceChunk_def isAllowed_iff receiver_rank_def
          word_gt_0 word_less_nat_alt Let_def intro!: wp_FileWrite\<close>)
qed

lemma receiver_VerifyMerkle_ok:
  assumes "receiver_inv H s g" and "s_state s = StateVerifyMerkle"
  shows "wp (receiver_watch H) (stepReceiverVerifyMerkle H s)
    (step_post (receiver_inv H) receiver_rank s) g"
proof -
  from assms obtain h cs where st: "receiver_started H s g h cs"
    using receiver_inv_started by fastforce
  then have path: "s_File s = Some (output_path h)" and leaves: "s_Leaves s = map (GenerateLeaf H) cs"
    by (simp_all add: receiver_started_def receiver_chunks_def)
  let ?root = "merkle_root H (map (GenerateLeaf H) cs)"
  let ?g = "g\<lparr>g_rd := g_rd g @ RootBytes ?root\<rparr>"
  have "turn H RoleReceiver ?g FinalAckBytes"
    using st assms(2) receiver_chunks_in_order [of H s h cs] turn_ack [where g = ?g and h = h and cs = cs and H = H]
    by (simp add: receiver_started_def)
  then have writes: "receiver_writes H ?g FinalAckBytes"
    using st assms(2)
    by (auto simp: receiver_writes_def receiver_started_def receiver_chunks_def
        verified_so_far_def intro!: exI [of _ h] exI [of _ cs])
  have inv: "receiver_inv H (s\<lparr>s_state := StateFinished\<rparr>) (g\<lparr>g_rd := g_rd g @ RootBytes ?root,
      g_wr := g_wr g @ [FinalAckBytes], g_cl := g_cl g @ [output_path h]\<rparr>)"
    using st assms(2)
    by (intro receiver_invI [of _ _ _ h cs]) (auto simp: receiver_started_def)
  show ?thesis
    unfolding stepReceiverVerifyMerkle_def verifyMerkle_body_def wp_bind wp_try root_of_built_tree
      leaves path
    by (rule root_msg.dec_sound)
      (use assms(2) writes inv in \<open>auto simp: wp_try wp_bind wire_defs wp_ConnWrite isAllowed_iff
        receiver_rank_def intro!: wp_FileClose split: sum.split\<close>)
qed

interpretation receiver: step_table "receiverSteps H" "receiver_watch H" "receiver_inv H" receiver_rank
  for H
proof
  fix s m
  assume inv: "receiver_inv H s m"
  then show "s_state s \<noteq> StateError"
    by (auto simp: receiver_inv_def receiver_started_def split: if_splits)
  assume "s_state s \<noteq> StateFinished"
  with inv show "\<exists>step. receiverSteps H (s_state s) = Some step"
    by (cases "s_state s") (auto simp: receiver_inv_def receiver_started_def)
next
  fix s m step
  assume inv: "receiver_inv H s m" and fin: "s_state s \<noteq> StateFinished"
    and step: "receiverSteps H (s_state s) = Some step"
  show "wp (receiver_watch H) (step s) (step_post (receiver_inv H) receiver_rank s) m"
  proof (cases "s_state s")
    case StateIdle
    with inv step show ?thesis
      by (auto simp: stepReceiverIdle_def receiver_inv_def isAllowed_iff receiver_rank_def)
  qed (use inv fin step in \<open>auto intro: receiver_ReceiveHeader_ok receiver_SendChunkRequest_ok
      receiver_WaitChunkResponse_ok receiver_SendLotteryTicket_ok receiver_WaitKeyReveal_ok
      receiver_VerifyChunk_ok receiver_VerifyMerkle_ok\<close>)
qed simp

section \<open>\<^verbatim>\<open>RecieveFile\<close> in an arbitrary environment\<close>

lemma receiver_session_start:
  "receiver_inv H (NewSession RoleReceiver) ghost_init"
  "receiver_rank (NewSession RoleReceiver) = 5 * 2 ^ 32 + 3"
  by (simp_all add: receiver_inv_def NewSession_def receiver_rank_def)

lemma RecieveFile_wp:
  "wp (receiver_watch H) (RecieveFile H fuel) (receiver.run_post H (fuel \<le> 5 * 2 ^ 32 + 3)) ghost_init"
  unfolding RecieveFile_def receiver_session_start(2) [symmetric]
  by (rule receiver.run_wp [OF receiver_session_start(1)])

text \<open>C4: whatever bytes the peer sends, when \<^verbatim>\<open>RecieveFile\<close> writes a block to a file, it is the one file it
  created, under \<^verbatim>\<open>./received/\<close> with the name in the header, and the bytes it has read so far are this header, for every chunk already stored a response and a key that
  were accepted, and a response and a key that open to exactly the block written now, with a
  commitment that is the hash of the key and that block.\<close>

theorem receiver_stores_only_verified:
  assumes "exec (RecieveFile H fuel) (xs @ (QFWrite path b, r) # ys) = Some p"
  shows "\<exists>h cs c. g_cr (observed xs) = [path] \<and> path = output_path h \<and>
    verified_so_far H (observed xs) h cs (ChunkResponseBytes c @ KeyRevealBytes (c_Index c) (c_Key c)) \<and>
    accepted_chunk H (h_FileID h) (length cs) c \<and> b = c_Plaintext c"
  using wp_watch_contract [OF RecieveFile_wp assms] by (simp add: receiver_stores_def)

text \<open>A lottery ticket is written only for the chunk whose complete response is the last
  thing that was read, all earlier chunks having been accepted and stored, and it carries that
  chunk's index.\<close>

lemma receiver_ticket_after_response:
  assumes "exec (RecieveFile H fuel) (xs @ (QWrite b, r) # ys) = Some p"
    and "hd b = msgLotteryTicket"
  shows "\<exists>h cs c. verified_so_far H (observed xs) h cs (ChunkResponseBytes c) \<and> response_ok c \<and>
    c_Index c = word_of_nat (length cs) \<and> b = LotteryTicketBytes (c_Index c)"
  using wp_watch_contract [OF RecieveFile_wp assms(1)] assms(2) by (simp add: receiver_writes_def)

text \<open>C5: the final acknowledgement is written only when as many chunks as the header announced
  have been accepted and written to the file, and the root the peer sent is the Merkle root over
  the leaves of exactly these chunks.\<close>

theorem receiver_ack_only_verified:
  assumes "exec (RecieveFile H fuel) (xs @ (QWrite b, r) # ys) = Some p"
    and "hd b = msgFinalAck"
  shows "\<exists>h cs. verified_so_far H (observed xs) h cs (RootBytes (merkle_root H (map (GenerateLeaf H) cs))) \<and>
    length cs = unat (h_Reps h)"
  using wp_watch_contract [OF RecieveFile_wp assms(1)] assms(2) by (simp add: receiver_writes_def)

text \<open>C20: no input makes \<^verbatim>\<open>RecieveFile\<close> panic: the pending chunk is never nil when it is used, the
  nonce always has the length GCM demands, and the tree always has a root.\<close>

theorem receiver_no_panic: "exec (RecieveFile H fuel) es \<noteq> Some (Halt h)"
  using wp_watch_halt [OF RecieveFile_wp] by blast

text \<open>C19: \<^verbatim>\<open>RecieveFile\<close> ends. With fuel for \<open>5 * 2 ^ 32 + 4\<close> iterations (five per chunk and four
  more, for any number of chunks a header can announce) every execution makes a bounded number of
  calls whatever the peer sends, and when there is no further call it has returned: finished, or with
  an error a step reported.\<close>

theorem receiver_terminates:
  assumes "exec (RecieveFile H (5 * 2 ^ 32 + 4)) es = Some p"
  shows "length es \<le> 11 * (5 * 2 ^ 32 + 4) \<and>
    (\<forall>res. p = Ret res \<longrightarrow>
      (\<exists>s. res = Returned s None \<and> s_state s = StateFinished) \<or>
      (\<exists>s st e. res = Returned s (Some (Errorf ''step %s failed: %w'' [AStr (state_String st), AErr e])) \<and>
         s_state s = StateError))"
proof (intro conjI allI impI)
  show "length es \<le> 11 * (5 * 2 ^ 32 + 4)" by (rule at_most_exec [OF RecieveFile_at_most assms])
next
  fix res
  assume "p = Ret res"
  with assms have "exec (RecieveFile H (5 * 2 ^ 32 + 4)) es = Some (Ret res)" by (simp only:)
  from wp_watch_result [OF RecieveFile_wp this] show
    "(\<exists>s. res = Returned s None \<and> s_state s = StateFinished) \<or>
      (\<exists>s st e. res = Returned s (Some (Errorf ''step %s failed: %w'' [AStr (state_String st), AErr e])) \<and>
         s_state s = StateError)"
    by (auto simp: receiver.run_post_def split: run_result.splits option.splits)
qed

text \<open>The whole conversation of a \<^verbatim>\<open>RecieveFile\<close> that succeeded.\<close>

lemma RecieveFile_history:
  assumes "exec (RecieveFile H fuel) es = Some (Ret (Returned s None))"
  shows "\<exists>h cs. header_ok h \<and> length cs = unat (h_Reps h) \<and>
    (\<forall>i<length cs. accepted_chunk H (h_FileID h) i (cs ! i)) \<and>
    g_rd (observed es) = HeaderBytes h @ chunk_stream cs @
      (if cs = [] then [] else RootBytes (merkle_root H (map (GenerateLeaf H) cs))) \<and>
    g_wr (observed es) = request_msgs (length cs) @ (if cs = [] then [] else [FinalAckBytes]) \<and>
    g_cr (observed es) = [output_path h] \<and> g_fw (observed es) = stored h cs \<and>
    g_cl (observed es) = [output_path h]"
proof -
  from wp_watch_result [OF RecieveFile_wp assms] have fin: "s_state s = StateFinished"
    and "receiver_inv H s (observed es)"
    by (simp_all add: receiver.run_post_def)
  then obtain h cs where "receiver_started H s (observed es) h cs"
    by (auto simp: receiver_inv_def)
  with fin show ?thesis
    by (intro exI [of _ h] exI [of _ cs])
      (auto simp: receiver_started_def receiver_chunks_def unat_eq_0 split: if_splits)
qed

text \<open>C13: when \<^verbatim>\<open>RecieveFile\<close> returns without an error, the bytes it read were a header, for each
  of the announced chunks a response and a key that were accepted, and the Merkle root over them;
  it created one file under \<^verbatim>\<open>./received/\<close>, wrote the plaintexts of the chunks to it in order and
  nothing else, closed it, and wrote a request and a ticket per chunk and the final
  acknowledgement (for an empty file: nothing).\<close>

theorem receiver_finished:
  assumes "exec (RecieveFile H fuel) es = Some (Ret (Returned s None))"
  shows "\<exists>h cs. header_ok h \<and> length cs = unat (h_Reps h) \<and>
    (\<forall>i<length cs. accepted_chunk H (h_FileID h) i (cs ! i)) \<and>
    g_rd (observed es) = HeaderBytes h @ chunk_stream cs @
      (if cs = [] then [] else RootBytes (merkle_root H (map (GenerateLeaf H) cs))) \<and>
    g_wr (observed es) = request_msgs (length cs) @ (if cs = [] then [] else [FinalAckBytes]) \<and>
    g_cr (observed es) = [output_path h] \<and> g_fw (observed es) = stored h cs \<and>
    g_cl (observed es) = [output_path h]"
  using assms by (rule RecieveFile_history)

end
