(* ===== verification/Chunking.thy ===== *)
theory Chunking
  imports Controllers
begin

text \<open>
  How a file is cut into chunks: the number of chunks \<^verbatim>\<open>PrepareMetadata\<close> announces, the bytes
  \<^verbatim>\<open>ReadChunkPlaintext\<close> asks for, and that the pieces put together are the file.
\<close>

section \<open>The pieces of a file\<close>

text \<open>What \<^verbatim>\<open>ReadAt\<close> delivers for chunk \<open>i\<close> of a file with the given content.\<close>

definition piece :: "bytes \<Rightarrow> nat \<Rightarrow> bytes" where
  "piece content i = take ChunkSize (drop (ChunkSize * i) content)"

definition chunk_count :: "nat \<Rightarrow> nat" where
  "chunk_count n = (n + ChunkSize - 1) div ChunkSize"

lemma length_piece: "length (piece content i) = min ChunkSize (length content - ChunkSize * i)"
  by (simp add: piece_def)

lemma take_piece: "take (ChunkSize * i) content @ piece content i = take (ChunkSize * Suc i) content"
  by (simp add: piece_def take_add [symmetric] add.commute)

lemma concat_pieces: "concat (map (piece content) [0..<k]) = take (ChunkSize * k) content"
  by (induction k) (simp_all add: piece_def take_add [symmetric] add.commute)

lemma chunk_count_covers: "n \<le> ChunkSize * chunk_count n"
  by (simp add: chunk_count_def)

lemma chunk_count_tight: "i < chunk_count n \<Longrightarrow> ChunkSize * i < n"
  by (simp add: chunk_count_def)

lemma chunk_count_0 [simp]: "chunk_count n = 0 \<longleftrightarrow> n = 0"
  by (auto simp: chunk_count_def)

lemma pieces_are_file: "concat (map (piece content) [0..<chunk_count (length content)]) = content"
  using chunk_count_covers [of "length content"] by (simp add: concat_pieces)

text \<open>The pieces are a partition of the file: put together in order
  they are its content, every one is non-empty and at most \<^verbatim>\<open>ChunkSize\<close> long, and only the last
  may be shorter than that.\<close>

lemma pieces_partition:
  "concat (map (piece content) [0..<chunk_count (length content)]) = content \<and>
   (\<forall>i<chunk_count (length content). piece content i \<noteq> [] \<and> length (piece content i) \<le> ChunkSize) \<and>
   (\<forall>i. Suc i < chunk_count (length content) \<longrightarrow> length (piece content i) = ChunkSize)"
proof (intro conjI allI impI)
  show "concat (map (piece content) [0..<chunk_count (length content)]) = content"
    by (rule pieces_are_file)
next
  fix i
  assume "i < chunk_count (length content)"
  then show "piece content i \<noteq> []"
    using chunk_count_tight [of i "length content"] by (simp add: piece_def not_le)
  show "length (piece content i) \<le> ChunkSize" by (simp add: length_piece)
next
  fix i
  assume "Suc i < chunk_count (length content)"
  then have "ChunkSize * Suc i < length content" by (rule chunk_count_tight)
  then show "length (piece content i) = ChunkSize" by (simp add: length_piece)
qed

section \<open>The announced number of chunks\<close>

lemma sint_small: "k < 2 ^ 63 \<Longrightarrow> sint (word_of_nat k :: u64) = int k"
  by (simp add: signed_of_nat signed_take_bit_int_eq_self)

lemma int64_div_small:
  assumes "a < 2 ^ 63" and "b < 2 ^ 63"
  shows "int64_div (word_of_nat a) (word_of_nat b) = word_of_nat (a div b)"
proof -
  have "int a sdiv int b = int (a div b)"
    by (simp add: signed_divide_int_def zdiv_int sgn_if)
  then show ?thesis using assms by (simp add: int64_div_def sint_small)
qed

lemma ucast_of_nat_u64: "(ucast (word_of_nat n :: u64) :: u32) = word_of_nat n"
  by (rule bit_word_eqI) (simp add: bit_simps)

lemma metadata_of_size:
  assumes "n < 2 ^ 63 - ChunkSize"
  shows "metadata_of name (word_of_nat n) =
    \<lparr>h_Name = name, h_FileSize = word_of_nat n, h_Reps = word_of_nat (chunk_count n), h_FileID = []\<rparr>"
proof -
  have sum: "(word_of_nat n :: u64) + word_of_nat ChunkSize - 1 = word_of_nat (n + ChunkSize - 1)"
    by simp
  have "int64_div (word_of_nat (n + ChunkSize - 1)) (word_of_nat ChunkSize) = word_of_nat (chunk_count n)"
    unfolding chunk_count_def using assms by (intro int64_div_small) simp_all
  then show ?thesis
    unfolding metadata_of_def sum by (simp only: ucast_of_nat_u64)
qed

lemma reps_exact:
  assumes "n \<le> ChunkSize * (2 ^ 32 - 1)"
  shows "unat (h_Reps (metadata_of name (word_of_nat n))) = chunk_count n"
proof -
  have "chunk_count n < 2 ^ 32" using assms by (simp add: chunk_count_def)
  with assms show ?thesis by (simp add: metadata_of_size unat_of_nat_u32)
qed

text \<open>The counter wraps around at \<open>2 ^ 32\<close> chunks.\<close>

lemma metadata_wraps: "h_Reps (metadata_of name (word_of_nat (2 ^ 47))) = 0"
proof -
  have "chunk_count (2 ^ 47) = 2 ^ 32" by (simp add: chunk_count_def)
  then show ?thesis
    using metadata_of_size [of "2 ^ 47" name] by simp
qed

text \<open>C31: what \<^verbatim>\<open>PrepareMetadata\<close> computes for a file of \<open>n\<close> bytes: the number of chunks is \<open>n\<close>
  divided by the chunk size and rounded up, exact for files of up to \<open>2 ^ 32 - 1\<close> chunks, and the
  announced size is \<open>n\<close> modulo \<open>2 ^ 32\<close>. The bound is sharp: a file of \<open>2 ^ 32\<close> full chunks is
  announced with no chunk at all, so its sender finishes after the header.\<close>

theorem metadata_exact:
  assumes "n \<le> ChunkSize * (2 ^ 32 - 1)"
  shows "unat (h_Reps (metadata_of name (word_of_nat n))) = chunk_count n \<and>
    unat (h_FileSize (metadata_of name (word_of_nat n))) = n mod 2 ^ 32 \<and>
    h_Name (metadata_of name (word_of_nat n)) = name \<and>
    h_Reps (metadata_of name (word_of_nat (ChunkSize * 2 ^ 32))) = 0"
proof -
  have "h_Reps (metadata_of name (word_of_nat (ChunkSize * 2 ^ 32))) = 0"
    using metadata_wraps [of name] by simp
  then show ?thesis
    using assms reps_exact [OF assms]
    by (simp add: metadata_of_size) (simp add: unat_of_nat take_bit_eq_mod)
qed

theorem metadata_exact_witness:
  "unat (h_Reps (metadata_of ''f'' (word_of_nat 32769))) = 2 \<and>
   unat (h_FileSize (metadata_of ''f'' (word_of_nat 32769))) = 32769"
  using metadata_exact [of 32769 "''f''"] by (simp add: chunk_count_def)

end
