(* ===== verification/Duplex.thy ===== *)
theory Duplex
  imports Go_IO
begin

text \<open>
  Two programs on two machines, connected by a stream. A machine has files, a clock and a
  random source; the stream is a byte queue in each direction. \<open>duplex_step\<close> lets either side
  serve its next request, so the runs of the system are the interleavings of the two programs.
  The step relation has the diamond property, from which it follows that one run that ends
  decides all of them: every schedule has the same length and the same end.

  The stream delivers every byte in order, also those written before a \<^verbatim>\<open>Close\<close>; both programs
  close it only when they are done with it, so the end of file a late reader would get is not
  modelled (such a reader waits). A \<^verbatim>\<open>Reset\<close>, which may drop bytes, is not served, and neither are
  the requests of the set-up code; closing the host comes after the stream is closed and changes nothing.
\<close>

section \<open>Machines\<close>

record machine =
  m_files :: "string \<rightharpoonup> bytes"
  m_now :: int
  m_rand :: "nat \<Rightarrow> byte"
  m_pos :: nat

text \<open>The last element of a path, which \<^verbatim>\<open>FileInfo.Name\<close> returns.\<close>

definition base_name :: "string \<Rightarrow> string" where
  "base_name p = rev (takeWhile (\<lambda>c. c \<noteq> CHR ''/'') (dropWhile (\<lambda>c. c = CHR ''/'') (rev p)))"

definition rand_bytes :: "machine \<Rightarrow> nat \<Rightarrow> bytes" where
  "rand_bytes m n = map (m_rand m) [m_pos m..<m_pos m + n]"

lemma length_rand_bytes [simp]: "length (rand_bytes m n) = n"
  by (simp add: rand_bytes_def)

abbreviation (input) "no_file \<equiv> Reply (Some (SysError ''no such file or directory'')) [] 0"
abbreviation (input) "done_ok \<equiv> Reply None [] 0"

text \<open>
  \<open>serve q m b\<close>: the reply to \<open>q\<close> on machine \<open>m\<close> when the bytes \<open>b\<close> have arrived, with the
  machine, the bytes left and the bytes sent. A read waits (\<open>None\<close>) until its buffer can be
  filled; output goes nowhere. The program writes a file front to back through one handle, so a write
  appends.
\<close>

fun serve :: "req \<Rightarrow> machine \<Rightarrow> bytes \<Rightarrow> (reply \<times> machine \<times> bytes \<times> bytes) option" where
  "serve (QRead n) m b =
     (if n \<le> length b then Some (Reply None (take n b) 0, m, drop n b, []) else None)"
| "serve (QWrite d) m b = Some (done_ok, m, b, d)"
| "serve (QRand n) m b = Some (Reply None (rand_bytes m n) 0, m\<lparr>m_pos := m_pos m + n\<rparr>, b, [])"
| "serve (QFOpen p) m b =
     (case m_files m p of None \<Rightarrow> Some (no_file, m, b, []) | Some _ \<Rightarrow> Some (done_ok, m, b, []))"
| "serve (QFCreate p) m b = Some (done_ok, m\<lparr>m_files := (m_files m)(p \<mapsto> [])\<rparr>, b, [])"
| "serve (QMkdirAll p) m b = Some (done_ok, m, b, [])"
| "serve (QFStat p) m b =
     (case m_files m p of None \<Rightarrow> Some (no_file, m, b, [])
      | Some content \<Rightarrow> Some (Reply None (str_bytes (base_name p)) (int (length content)), m, b, []))"
| "serve (QFReadAt p n off) m b =
     (case m_files m p of None \<Rightarrow> Some (no_file, m, b, [])
      | Some content \<Rightarrow>
          let d = take n (drop (nat off) content)
          in Some (Reply (if length d < n then Some EOF else None) d 0, m, b, []))"
| "serve (QFWrite p d) m b =
     (case m_files m p of None \<Rightarrow> Some (no_file, m, b, [])
      | Some content \<Rightarrow> Some (done_ok, m\<lparr>m_files := (m_files m)(p \<mapsto> content @ d)\<rparr>, b, []))"
| "serve (QFClose p) m b = Some (done_ok, m, b, [])"
| "serve QNow m b = Some (Reply None [] (m_now m), m, b, [])"
| "serve QClose m b = Some (done_ok, m, b, [])"
| "serve QHostClose m b = Some (done_ok, m, b, [])"
| "serve q m b = (if is_output q then Some (done_ok, m, b, []) else None)"

text \<open>The replies keep the promises of the calls, and bytes that arrive later change nothing.\<close>

lemma serve_reply_ok: "serve q m b = Some (r, m', b', out) \<Longrightarrow> reply_ok q r"
  by (cases q) (auto split: if_splits option.splits simp: Let_def)

lemma serve_append:
  "serve q m b = Some (r, m', b', out) \<Longrightarrow> serve q m (b @ c) = Some (r, m', b' @ c, out)"
  by (cases q) (auto split: if_splits option.splits simp: Let_def)

section \<open>One program on its own\<close>

text \<open>\<open>drive\<close> runs a program on the bytes that have arrived until it ends or waits for more.\<close>

primrec drive :: "'a io \<Rightarrow> machine \<Rightarrow> bytes \<Rightarrow> 'a io \<times> machine \<times> bytes \<times> bytes" where
  "drive (Ret x) m b = (Ret x, m, b, [])"
| "drive (Halt h) m b = (Halt h, m, b, [])"
| "drive (Act q k) m b =
     (case serve q m b of
        None \<Rightarrow> (Act q k, m, b, [])
      | Some (r, m', b', out) \<Rightarrow>
          (case drive (k r) m' b' of (p, m'', b'', out') \<Rightarrow> (p, m'', b'', out @ out')))"

text \<open>
  \<open>sends out x\<close> is the result \<open>x\<close> of a run that had already sent \<open>out\<close>.
\<close>

definition sends :: "bytes \<Rightarrow> 'p \<times> machine \<times> bytes \<times> bytes \<Rightarrow> 'p \<times> machine \<times> bytes \<times> bytes" where
  "sends out x = (case x of (p, m, b, out') \<Rightarrow> (p, m, b, out @ out'))"

lemma sends_simps [simp]:
  "sends out (p, m, b, out') = (p, m, b, out @ out')"
  "sends [] x = x"
  "sends a (sends b x) = sends (a @ b) x"
  by (simp_all add: sends_def split: prod.split)

lemma drive_Act:
  "serve q m b = Some (r, m', b', out) \<Longrightarrow> drive (Act q k) m b = sends out (drive (k r) m' b')"
  by (simp add: sends_def)

text \<open>A sequence: the second program runs when the first has returned.\<close>

definition drive_then ::
  "'a io \<times> machine \<times> bytes \<times> bytes \<Rightarrow> ('a \<Rightarrow> 'b io) \<Rightarrow> 'b io \<times> machine \<times> bytes \<times> bytes" where
  "drive_then d f =
     (case d of (p, m, b, out) \<Rightarrow>
        (case p of Ret x \<Rightarrow> sends out (drive (f x) m b) | _ \<Rightarrow> (io_bind p f, m, b, out)))"

lemma drive_then_sends: "drive_then (sends out d) f = sends out (drive_then d f)"
  by (cases d) (simp add: drive_then_def split: io.split)

lemma drive_bind: "drive (io_bind p f) m b = drive_then (drive p m b) f"
proof (induction p arbitrary: m b)
  case (Act q k)
  show ?case
  proof (cases "serve q m b")
    case None
    then show ?thesis by (simp add: drive_then_def)
  next
    case (Some x)
    obtain r m1 b1 out1 where x: "x = (r, m1, b1, out1)" by (cases x)
    from Act.IH [of "k r" m1 b1] show ?thesis
      by (simp only: io_bind.simps drive_Act [OF Some [unfolded x]] drive_then_sends rangeI)
  qed
qed (simp_all add: drive_then_def)

lemma drive_then_Ret [simp]: "drive_then (Ret x, m, b, out) f = sends out (drive (f x) m b)"
  by (simp add: drive_then_def)

lemma drive_try [simp]:
  "drive (io_try p h f) m b =
     drive_then (drive p m b) (\<lambda>r. case r of Inl e \<Rightarrow> Ret (h e) | Inr x \<Rightarrow> f x)"
  by (simp add: io_try_def drive_bind)

text \<open>A run in a context ends where the program waits.\<close>

definition waiting :: "'a io \<Rightarrow> bool" where
  "waiting p \<longleftrightarrow> (case p of Act (QRead n) k \<Rightarrow> 0 < n | _ \<Rightarrow> False)"

lemma waiting_simps [simp]:
  "waiting (Act (QRead n) k) = (0 < n)" "\<not> waiting (Ret x)" "\<not> waiting (Halt h)"
  by (simp_all add: waiting_def)

lemma waiting_bind [simp]: "waiting p \<Longrightarrow> waiting (io_bind p f)"
  by (auto simp: waiting_def split: io.splits req.splits)

lemma waiting_try [simp]: "waiting p \<Longrightarrow> waiting (io_try p h f)"
  by (simp add: io_try_def)

lemma waiting_ReadFull [simp]: "waiting (ReadFull n) = (0 < n)"
  by (simp add: ReadFull_def)

lemma drive_then_waiting: "waiting p \<Longrightarrow> drive_then (p, m, b, out) f = (io_bind p f, m, b, out)"
  by (cases p) (simp_all add: drive_then_def)

text \<open>The calls on a machine.\<close>

lemma drive_calls [io_simps]:
  "drive (RandRead n) m b = (Ret (Inr (rand_bytes m n)), m\<lparr>m_pos := m_pos m + n\<rparr>, b, [])"
  "drive (ConnWrite d) m b = (Ret (Inr ()), m, b, d)"
  "drive (MkdirAll p) m b = (Ret (Inr ()), m, b, [])"
  "drive (CreateFile p) m b = (Ret (Inr p), m\<lparr>m_files := (m_files m)(p \<mapsto> [])\<rparr>, b, [])"
  "drive (FileClose (Some p)) m b = (Ret (Inr ()), m, b, [])"
  "drive ConnClose m b = (Ret (Inr ()), m, b, [])"
  "drive TimeNow m b = (Ret (word_of_int (m_now m)), m, b, [])"
  "drive (Printf_nl fmt args) m b = (Ret (), m, b, [])"
  "drive (Println args) m b = (Ret (), m, b, [])"
  "drive (Logf fmt args) m b = (Ret (), m, b, [])"
  "drive (Logln args) m b = (Ret (), m, b, [])"
  by (simp_all add: io_prim_defs reply_bytes_def reply_unit_def)

lemma drive_file_calls [io_simps]:
  assumes "m_files m p = Some content"
  shows "drive (OpenFile p) m b = (Ret (Inr p), m, b, [])"
    and "drive (FileStat p) m b = (Ret (Inr (base_name p, word_of_nat (length content))), m, b, [])"
    and "drive (FileWrite (Some p) d) m b =
      (Ret (Inr ()), m\<lparr>m_files := (m_files m)(p \<mapsto> content @ d)\<rparr>, b, [])"
    and "drive (FileReadAt (Some p) n off) m b =
      (let d = take n (drop (nat off) content)
       in (Ret (d, if length d < n then Some EOF else None), m, b, []))"
  using assms by (simp_all add: io_prim_defs reply_unit_def Let_def)

lemma drive_waiting: "waiting p \<Longrightarrow> drive p m [] = (p, m, [], [])"
  by (auto simp: waiting_def split: io.splits req.splits)

section \<open>Two connected programs\<close>

record ('a, 'b) duplex =
  left :: "'a io"
  left_machine :: machine
  right :: "'b io"
  right_machine :: machine
  to_right :: bytes
  to_left :: bytes

inductive duplex_step :: "('a, 'b) duplex \<Rightarrow> ('a, 'b) duplex \<Rightarrow> bool" where
  left_step: "left d = Act q k \<Longrightarrow> serve q (left_machine d) (to_left d) = Some (r, m, b, out) \<Longrightarrow>
    duplex_step d (d\<lparr>left := k r, left_machine := m, to_left := b, to_right := to_right d @ out\<rparr>)"
| right_step: "right d = Act q k \<Longrightarrow> serve q (right_machine d) (to_right d) = Some (r, m, b, out) \<Longrightarrow>
    duplex_step d (d\<lparr>right := k r, right_machine := m, to_right := b, to_left := to_left d @ out\<rparr>)"

inductive_cases duplex_stepE: "duplex_step d d'"

text \<open>
  The contract of a step relation in which steps taken apart can be joined again. A run that
  cannot go on then decides every other run: none is longer, and each can be completed, in
  exactly the missing number of steps, to the same end.
\<close>

locale diamond =
  fixes step :: "'s \<Rightarrow> 's \<Rightarrow> bool"
  assumes join: "step a b \<Longrightarrow> step a c \<Longrightarrow> b = c \<or> (\<exists>d. step b d \<and> step c d)"
begin

lemma strip:
  assumes "step a b" and "(step ^^ n) a z" and "\<And>y. \<not> step z y"
  shows "\<exists>m. n = Suc m \<and> (step ^^ m) b z"
  using assms(1,2)
proof (induction n arbitrary: a b)
  case 0
  then show ?case using assms(3) by auto
next
  case (Suc n)
  then obtain c where c: "step a c" "(step ^^ n) c z" by (blast dest: relpowp_Suc_D2)
  from join [OF Suc.prems(1) c(1)] show ?case
  proof
    assume "b = c"
    with c show ?thesis by blast
  next
    assume "\<exists>d. step b d \<and> step c d"
    then obtain d where "step b d" "step c d" by blast
    with Suc.IH [OF this(2) c(2)] show ?thesis by (blast intro: relpowp_Suc_I2)
  qed
qed

lemma one_run_decides:
  assumes "(step ^^ n) a z" and "\<And>y. \<not> step z y" and "(step ^^ k) a b"
  shows "k \<le> n \<and> (step ^^ (n - k)) b z"
  using assms(1,3)
proof (induction k arbitrary: a n)
  case 0
  then show ?case by auto
next
  case (Suc k)
  then obtain c where "step a c" and c: "(step ^^ k) c b" by (blast dest: relpowp_Suc_D2)
  then obtain m where "n = Suc m" "(step ^^ m) c z"
    using strip [OF _ Suc.prems(1) assms(2)] by blast
  with Suc.IH c show ?case by auto
qed

end

lemma duplex_join:
  assumes "duplex_step d x" and "duplex_step d y"
  shows "x = y \<or> (\<exists>z. duplex_step x z \<and> duplex_step y z)"
proof -
  have sides: "\<exists>z. duplex_step x z \<and> duplex_step y z"
    if l: "left d = Act q k" "serve q (left_machine d) (to_left d) = Some (r, m, b, out)"
    and r: "right d = Act q' k'" "serve q' (right_machine d) (to_right d) = Some (r', m', b', out')"
    and x: "x = d\<lparr>left := k r, left_machine := m, to_left := b, to_right := to_right d @ out\<rparr>"
    and y: "y = d\<lparr>right := k' r', right_machine := m', to_right := b', to_left := to_left d @ out'\<rparr>"
    for x y q k r m b out q' k' r' m' b' out'
  proof (intro exI conjI)
    let ?z = "d\<lparr>left := k r, left_machine := m, right := k' r', right_machine := m',
      to_right := b' @ out, to_left := b @ out'\<rparr>"
    have "duplex_step x (x\<lparr>right := k' r', right_machine := m', to_right := b' @ out,
        to_left := to_left x @ out'\<rparr>)"
      using r serve_append [OF r(2), of out] by (intro right_step) (auto simp: x)
    then show "duplex_step x ?z" by (simp add: x)
    have "duplex_step y (y\<lparr>left := k r, left_machine := m, to_left := b @ out',
        to_right := to_right y @ out\<rparr>)"
      using l serve_append [OF l(2), of out'] by (intro left_step) (auto simp: y)
    then show "duplex_step y ?z" by (cases d) (simp add: y)
  qed
  from assms show ?thesis
    by (elim duplex_stepE) (auto dest: sides)
qed

interpretation duplex: diamond duplex_step
  by unfold_locales (rule duplex_join)

text \<open>Driving one side is a run of the system.\<close>

lemma duplex_left:
  "drive (left d) (left_machine d) (to_left d) = (p, m, b, out) \<Longrightarrow>
   duplex_step\<^sup>*\<^sup>* d (d\<lparr>left := p, left_machine := m, to_left := b, to_right := to_right d @ out\<rparr>)"
proof (induction "left d" arbitrary: d out)
  case (Act q k)
  show ?case
  proof (cases "serve q (left_machine d) (to_left d)")
    case None
    with Act.prems have "p = left d" "m = left_machine d" "b = to_left d" "out = []"
      by (auto simp: Act.hyps(2) [symmetric])
    then show ?thesis by simp
  next
    case (Some x)
    obtain r m1 b1 out1 where x: "x = (r, m1, b1, out1)" by (cases x)
    let ?d = "d\<lparr>left := k r, left_machine := m1, to_left := b1, to_right := to_right d @ out1\<rparr>"
    have step: "duplex_step d ?d"
      using Act.hyps(2) Some x by (intro left_step) auto
    obtain out2 where d2: "drive (k r) m1 b1 = (p, m, b, out2)" and out: "out = out1 @ out2"
      using Act.prems Some x by (auto simp: Act.hyps(2) [symmetric] split: prod.splits)
    have "duplex_step\<^sup>*\<^sup>* ?d (?d\<lparr>left := p, left_machine := m, to_left := b, to_right := to_right ?d @ out2\<rparr>)"
      by (rule Act.hyps(1)) (use d2 in auto)
    then have "duplex_step\<^sup>*\<^sup>* ?d (d\<lparr>left := p, left_machine := m, to_left := b, to_right := to_right d @ out\<rparr>)"
      by (simp add: out)
    with step show ?thesis by (rule converse_rtranclp_into_rtranclp)
  qed
next
  case (Ret x)
  then have "p = left d" "m = left_machine d" "b = to_left d" "out = []"
    by (auto simp: Ret.hyps [symmetric])
  then show ?case by simp
next
  case (Halt h)
  then have "p = left d" "m = left_machine d" "b = to_left d" "out = []"
    by (auto simp: Halt.hyps [symmetric])
  then show ?case by simp
qed

text \<open>Running two programs as the first parts of two others.\<close>

definition in_context :: "('a \<Rightarrow> 'c io) \<Rightarrow> ('b \<Rightarrow> 'd io) \<Rightarrow> ('a, 'b) duplex \<Rightarrow> ('c, 'd) duplex" where
  "in_context f g d =
     \<lparr>left = io_bind (left d) f, left_machine = left_machine d, right = io_bind (right d) g,
      right_machine = right_machine d, to_right = to_right d, to_left = to_left d\<rparr>"

lemma duplex_step_context: "duplex_step d d' \<Longrightarrow> duplex_step (in_context f g d) (in_context f g d')"
proof (induction rule: duplex_step.induct)
  case (left_step d q k r m b out)
  then have "duplex_step (in_context f g d) ((in_context f g d)\<lparr>left := io_bind (k r) f, left_machine := m,
      to_left := b, to_right := to_right (in_context f g d) @ out\<rparr>)"
    by (intro duplex_step.left_step [where k = "\<lambda>r. io_bind (k r) f"]) (auto simp: in_context_def)
  then show ?case by (simp add: in_context_def)
next
  case (right_step d q k r m b out)
  then have "duplex_step (in_context f g d) ((in_context f g d)\<lparr>right := io_bind (k r) g, right_machine := m,
      to_right := b, to_left := to_left (in_context f g d) @ out\<rparr>)"
    by (intro duplex_step.right_step [where k = "\<lambda>r. io_bind (k r) g"]) (auto simp: in_context_def)
  then show ?case by (simp add: in_context_def)
qed

lemma duplex_steps_context: "duplex_step\<^sup>*\<^sup>* d d' \<Longrightarrow> duplex_step\<^sup>*\<^sup>* (in_context f g d) (in_context f g d')"
  by (induction rule: rtranclp_induct)
    (auto intro: rtranclp.rtrancl_into_rtrancl duplex_step_context)

text \<open>The system seen from the other side.\<close>

definition mirror :: "('a, 'b) duplex \<Rightarrow> ('b, 'a) duplex" where
  "mirror d = \<lparr>left = right d, left_machine = right_machine d, right = left d,
     right_machine = left_machine d, to_right = to_left d, to_left = to_right d\<rparr>"

lemma mirror_mirror [simp]: "mirror (mirror d) = d"
  by (simp add: mirror_def)

lemma duplex_step_mirror: "duplex_step d d' \<Longrightarrow> duplex_step (mirror d) (mirror d')"
proof (induction rule: duplex_step.induct)
  case (left_step d q k r m b out)
  then have "duplex_step (mirror d) ((mirror d)\<lparr>right := k r, right_machine := m, to_right := b,
      to_left := to_left (mirror d) @ out\<rparr>)"
    by (intro duplex_step.right_step) (auto simp: mirror_def)
  then show ?case by (simp add: mirror_def)
next
  case (right_step d q k r m b out)
  then have "duplex_step (mirror d) ((mirror d)\<lparr>left := k r, left_machine := m, to_left := b,
      to_right := to_right (mirror d) @ out\<rparr>)"
    by (intro duplex_step.left_step) (auto simp: mirror_def)
  then show ?case by (simp add: mirror_def)
qed

lemma duplex_steps_mirror: "duplex_step\<^sup>*\<^sup>* d d' \<Longrightarrow> duplex_step\<^sup>*\<^sup>* (mirror d) (mirror d')"
  by (induction rule: rtranclp_induct) (auto intro: rtranclp.rtrancl_into_rtrancl duplex_step_mirror)

lemma duplex_right:
  assumes "drive (right d) (right_machine d) (to_right d) = (p, m, b, out)"
  shows "duplex_step\<^sup>*\<^sup>* d (d\<lparr>right := p, right_machine := m, to_right := b, to_left := to_left d @ out\<rparr>)"
  using duplex_steps_mirror [OF duplex_left [of "mirror d"]] assms
  by (cases d) (simp add: mirror_def)

text \<open>The same for a system written out.\<close>

lemma run_left:
  "drive l lm bl = (l', lm', bl', out) \<Longrightarrow>
   duplex_step\<^sup>*\<^sup>*
     \<lparr>left = l, left_machine = lm, right = r, right_machine = rm, to_right = br, to_left = bl\<rparr>
     \<lparr>left = l', left_machine = lm', right = r, right_machine = rm, to_right = br @ out, to_left = bl'\<rparr>"
  using duplex_left [of "\<lparr>left = l, left_machine = lm, right = r, right_machine = rm, to_right = br,
    to_left = bl\<rparr>"] by simp

lemma run_right:
  "drive r rm br = (r', rm', br', out) \<Longrightarrow>
   duplex_step\<^sup>*\<^sup>*
     \<lparr>left = l, left_machine = lm, right = r, right_machine = rm, to_right = br, to_left = bl\<rparr>
     \<lparr>left = l, left_machine = lm, right = r', right_machine = rm', to_right = br', to_left = bl @ out\<rparr>"
  using duplex_right [of "\<lparr>left = l, left_machine = lm, right = r, right_machine = rm, to_right = br,
    to_left = bl\<rparr>"] by simp

lemma duplex_final: "left d = Ret x \<Longrightarrow> right d = Ret y \<Longrightarrow> \<not> duplex_step d d'"
  by (auto elim!: duplex_stepE)

end
