(* ===== verification/End_To_End.thy ===== *)
theory End_To_End
  imports Sender Receiver Chunking Duplex
begin

text \<open>
  A sender and a receiver connected: \<^verbatim>\<open>SendFile\<close> on one machine and \<^verbatim>\<open>RecieveFile\<close> on another,
  over a stream that delivers every byte. The rounds of the protocol are followed step by step;
  the diamond property of \<open>duplex_step\<close> carries the result from that run to every
  interleaving.
\<close>

section \<open>Driving the steps\<close>

lemma drive_feed: "feed p b = (Ret x, r) \<Longrightarrow> drive p m b = (Ret x, m, r, [])"
  by (induction p arbitrary: b) (auto split: req.splits if_splits)

lemmas drive_reads [io_simps] =
  drive_feed [OF header_msg.dec_enc] drive_feed [OF header_msg.dec_exact]
  drive_feed [OF request_msg.dec_enc] drive_feed [OF request_msg.dec_exact]
  drive_feed [OF response_msg.dec_enc] drive_feed [OF response_msg.dec_exact]
  drive_feed [OF ticket_msg.dec_enc] drive_feed [OF ticket_msg.dec_exact]
  drive_feed [OF key_msg.dec_enc [of "(i, k)" for i k, simplified]]
  drive_feed [OF key_msg.dec_exact [of "(i, k)" for i k, simplified]]
  drive_feed [OF root_msg.dec_enc] drive_feed [OF root_msg.dec_exact]
  drive_feed [OF ack_msg.dec_enc [where a = "()", OF TrueI]]
  drive_feed [OF ack_msg.dec_exact [where a = "()", OF TrueI]]

lemma waiting_reads [simp]:
  "waiting ReadHeader" "waiting ReadChunkRequest" "waiting (ReadChunkResponse fileID)"
  "waiting ReadLotteryTicket" "waiting ReadKeyReveal" "waiting ReadRoot" "waiting ReadFinalAck"
  by (simp_all add: read_defs)

lemma Run_Finished [simp]: "s_state s = StateFinished \<Longrightarrow> Run (Suc fuel) s steps = Ret (Returned s None)"
  by (simp add: Run_Suc)

text \<open>One iteration of \<^verbatim>\<open>Run\<close>: the registered step, then the transition.\<close>

lemma run_next_ok [simp]:
  "isAllowed (s_state s) next \<Longrightarrow>
   drive (run_next fuel steps current (s, Inr next)) m b = drive (Run fuel (s\<lparr>s_state := next\<rparr>) steps) m b"
  by (simp add: run_next_def Transition_def io_bind_assoc drive_bind io_simps)

lemma drive_Run:
  assumes "steps (s_state s) \<noteq> None" and "s_state s \<noteq> StateFinished" and "s_state s \<noteq> StateError"
  shows "drive (Run (Suc fuel) s steps) m b =
    drive_then (drive (the (steps (s_state s)) s) m b) (run_next fuel steps (s_state s))"
  using Run_step [of steps s, OF assms] by (simp add: drive_bind)

lemma waiting_Run:
  assumes "steps (s_state s) \<noteq> None" and "s_state s \<noteq> StateFinished" and "s_state s \<noteq> StateError"
    and "waiting (the (steps (s_state s)) s)"
  shows "waiting (Run (Suc fuel) s steps)"
  using Run_step [of steps s, OF assms(1-3)] assms(4) by (simp)

section \<open>The chunks of an honest sender\<close>

text \<open>The chunk \<open>i\<close> a sender on machine \<open>m\<close> makes: key and nonce are the next random bytes.\<close>

definition honest_chunk :: "digest \<Rightarrow> bytes \<Rightarrow> bytes \<Rightarrow> machine \<Rightarrow> nat \<Rightarrow> Chunk" where
  "honest_chunk H fileID content m i =
     (let key = rand_bytes m KeySize;
          nonce = rand_bytes (m\<lparr>m_pos := m_pos m + KeySize\<rparr>) NonceSize;
          p = piece content i
      in (NewChunk fileID (word_of_nat i) p)
           \<lparr>c_Key := key, c_Nonce := nonce, c_Ciphertext := gcm_Seal key nonce p,
            c_HResp := H (key @ p)\<rparr>)"

lemma length_piece_limit: "length (piece content i) \<le> gcm_limit"
  by (simp add: length_piece gcm_limit_def)

lemma honest_chunk_fields [simp]:
  "c_FileID (honest_chunk H fileID content m i) = fileID"
  "c_Index (honest_chunk H fileID content m i) = word_of_nat i"
  "c_Plaintext (honest_chunk H fileID content m i) = piece content i"
  "length (c_Key (honest_chunk H fileID content m i)) = KeySize"
  "length (c_Nonce (honest_chunk H fileID content m i)) = NonceSize"
  by (simp_all add: honest_chunk_def NewChunk_def Let_def)

lemma honest_chunk_ok:
  assumes "\<And>x. length (H x) = HashSize"
  shows "response_ok (honest_chunk H fileID content m i)"
  using assms by (simp add: response_ok_def honest_chunk_def NewChunk_def Let_def gcm.length_seal length_piece)

lemma drive_BuildAndEncryptChunk:
  "drive (BuildAndEncryptChunk H fileID (word_of_nat i) (piece content i)) m b =
     (Ret (Inr (honest_chunk H fileID content m i)), m\<lparr>m_pos := m_pos m + 44\<rparr>, b, [])"
proof -
  have "\<not> gcm_limit < length (piece content i)" using length_piece_limit [of content i] by simp
  then show ?thesis
    by (simp add: BuildAndEncryptChunk_def GenerateRandomKey_def EncryptChunk_def Let_def
      io_simps aes_key_ok_def NewChunk_def honest_chunk_def ComputeResponseCommitment_def Keccak_eq)
qed

section \<open>The rounds of the sender\<close>

definition at_round :: "Session \<Rightarrow> TransferState \<Rightarrow> nat \<Rightarrow> Chunk option \<Rightarrow> bytes list \<Rightarrow> Session" where
  "at_round s st i pend ls =
     s\<lparr>s_state := st, s_CurrentChunk := word_of_nat i, s_PendingChunk := pend, s_Leaves := ls\<rparr>"

lemma at_round_fields [simp]:
  "s_state (at_round s st i pend ls) = st"
  "s_CurrentChunk (at_round s st i pend ls) = word_of_nat i"
  "s_PendingChunk (at_round s st i pend ls) = pend"
  "s_Leaves (at_round s st i pend ls) = ls"
  "s_File (at_round s st i pend ls) = s_File s"
  "s_FileID (at_round s st i pend ls) = s_FileID s"
  "s_ChunkSize (at_round s st i pend ls) = s_ChunkSize s"
  "s_TotalChunks (at_round s st i pend ls) = s_TotalChunks s"
  "(at_round s st i pend ls)\<lparr>s_state := st'\<rparr> = at_round s st' i pend ls"
  "(at_round s st i pend ls)\<lparr>s_PendingChunk := pend'\<rparr> = at_round s st i pend' ls"
  "(at_round s st i pend ls)\<lparr>s_Leaves := ls'\<rparr> = at_round s st i pend ls'"
  "AdvanceChunk (at_round s st i pend ls) = at_round s st (Suc i) pend ls"
  by (simp_all add: at_round_def AdvanceChunk_def)

lemma IsLastChunk_at_round:
  assumes "i < unat (s_TotalChunks s)"
  shows "IsLastChunk (at_round s st i pend ls) \<longleftrightarrow> Suc i = unat (s_TotalChunks s)"
proof -
  have "i < 2 ^ 32" using assms u32_less [of "s_TotalChunks s"] by simp
  then have i: "unat (word_of_nat i :: u32) = i" by (rule unat_of_nat_u32)
  with assms have less: "word_of_nat i < s_TotalChunks s" by (simp add: word_less_nat_alt)
  from last_chunk_nat(1,2) [OF less] i show ?thesis by (auto simp: IsLastChunk_def word_gt_0)
qed

text \<open>What the sender session and its machine have to provide.\<close>

definition serves :: "Session \<Rightarrow> bytes \<Rightarrow> machine \<Rightarrow> bool" where
  "serves s content m \<longleftrightarrow>
     s_ChunkSize s = word_of_nat ChunkSize \<and> (\<exists>p. s_File s = Some p \<and> m_files m p = Some content)"

lemma serves_frame [simp]:
  "serves (at_round s st i pend ls) content m = serves s content m"
  "serves s content (m\<lparr>m_pos := n\<rparr>) = serves s content m"
  by (simp_all add: serves_def)

lemma chunk_offset:
  assumes "i < 2 ^ 32"
  shows "sint (ucast (word_of_nat ChunkSize :: u32) * ucast (word_of_nat i :: u32) :: u64) = int (ChunkSize * i)"
proof -
  have "(ucast (word_of_nat i :: u32) :: u64) = word_of_nat i"
    using assms by (simp add: unsigned_of_nat take_bit_nat_eq_self)
  then have "(ucast (word_of_nat ChunkSize :: u32) * ucast (word_of_nat i :: u32) :: u64) = word_of_nat (ChunkSize * i)"
    by simp
  moreover have "ChunkSize * i < 2 ^ 63" using assms by simp
  ultimately show ?thesis using sint_small by metis
qed

lemma drive_ReadChunkPlaintext:
  assumes "m_files m p = Some content" and "i < 2 ^ 32"
  shows "drive (ReadChunkPlaintext (Some p) (word_of_nat i) (word_of_nat ChunkSize)) m b =
    (Ret (Inr (piece content i)), m, b, [])"
proof -
  have size: "unat (word_of_nat ChunkSize :: u32) = ChunkSize" by simp
  show ?thesis
    unfolding ReadChunkPlaintext_def chunk_offset [OF assms(2)] size drive_bind
    using assms(1) by (simp add: io_simps Let_def piece_def nat_mult_distrib)
qed

text \<open>Reading a file chunk by chunk. For every file of up to \<open>2 ^ 32 - 1\<close> chunks on the sender's
  machine, \<^verbatim>\<open>ReadChunkPlaintext\<close> called for the indices \<open>0\<close> up to the number of chunks
  \<^verbatim>\<open>PrepareMetadata\<close> announces returns non-empty blocks of at most \<^verbatim>\<open>ChunkSize\<close> bytes, all but the
  last of exactly that size, which put together in order are the file.\<close>

lemma file_read_in_chunks:
  assumes "m_files m p = Some content" and "length content \<le> ChunkSize * (2 ^ 32 - 1)"
  shows "\<exists>ps. length ps = unat (h_Reps (metadata_of name (word_of_nat (length content)))) \<and> concat ps = content \<and>
    (\<forall>i<length ps. drive (ReadChunkPlaintext (Some p) (word_of_nat i) (word_of_nat ChunkSize)) m b =
        (Ret (Inr (ps ! i)), m, b, []) \<and> ps ! i \<noteq> [] \<and> length (ps ! i) \<le> ChunkSize \<and>
        (Suc i < length ps \<longrightarrow> length (ps ! i) = ChunkSize))"
proof -
  let ?n = "chunk_count (length content)"
  have "?n < 2 ^ 32" using assms(2) by (simp add: chunk_count_def)
  then have "drive (ReadChunkPlaintext (Some p) (word_of_nat i) (word_of_nat ChunkSize)) m b =
      (Ret (Inr (piece content i)), m, b, [])" if "i < ?n" for i
    using that by (intro drive_ReadChunkPlaintext [OF assms(1)]) simp
  with pieces_partition [of content] reps_exact [OF assms(2), of name] show ?thesis
    by (intro exI [of _ "map (piece content) [0..<?n]"]) simp
qed

lemma sender_on_request:
  assumes "serves s content m" and "i < 2 ^ 32"
  shows "drive (Run (Suc (Suc (Suc f))) (at_round s StateWaitingChunkRequest i pend ls) (senderSteps H)) m
      (ChunkRequestBytes (word_of_nat i)) =
    (let c = honest_chunk H (s_FileID s) content m i
     in (Run (Suc f) (at_round s StateWaitingLotteryTicket i (Some c) ls) (senderSteps H),
         m\<lparr>m_pos := m_pos m + 44\<rparr>, [], ChunkResponseBytes c))"
proof -
  let ?c = "honest_chunk H (s_FileID s) content m i"
  let ?s = "\<lambda>st p. at_round s st i p ls"
  from assms(1) obtain p where p: "s_File s = Some p" "m_files m p = Some content"
    and size: "s_ChunkSize s = word_of_nat ChunkSize"
    by (auto simp: serves_def)
  have 1: "drive (stepSenderWaitChunkRequest (?s StateWaitingChunkRequest pend)) m (ChunkRequestBytes (word_of_nat i)) =
      (Ret (?s StateWaitingChunkRequest pend, Inr StateSendChunkResponse), m, [], [])"
    by (simp add: stepSenderWaitChunkRequest_def io_simps)
  have 2: "drive (stepSenderSendChunkResponse H (?s StateSendChunkResponse pend)) m [] =
      (Ret (?s StateSendChunkResponse (Some ?c), Inr StateWaitingLotteryTicket),
       m\<lparr>m_pos := m_pos m + 44\<rparr>, [], ChunkResponseBytes ?c)"
    unfolding stepSenderSendChunkResponse_def at_round_fields p(1) size drive_try
      drive_ReadChunkPlaintext [OF p(2) assms(2)]
    by (simp add: io_simps drive_BuildAndEncryptChunk wire_defs)
  show ?thesis
    by (simp add: Let_def drive_Run 1 2 isAllowed_iff drive_waiting waiting_Run stepSenderWaitLotteryTicket_def
       )
qed

lemma sender_on_ticket:
  "drive (Run (Suc (Suc f)) (at_round s StateWaitingLotteryTicket i (Some c) ls) (senderSteps H)) m
      (LotteryTicketBytes (word_of_nat i)) =
    sends (KeyRevealBytes (word_of_nat i) (c_Key c))
      (drive (if IsLastChunk (at_round s StateSendKeyReveal i (Some c) ls)
              then Run f (at_round s StateVerifyMerkle i None (ls @ [GenerateLeaf H c])) (senderSteps H)
              else Run f (at_round s StateWaitingChunkRequest (Suc i) None (ls @ [GenerateLeaf H c])) (senderSteps H))
        m [])"
proof -
  let ?s = "\<lambda>st. at_round s st i (Some c) ls"
  let ?last = "IsLastChunk (?s StateSendKeyReveal)"
  let ?ls = "ls @ [GenerateLeaf H c]"
  have 1: "drive (stepSenderWaitLotteryTicket (?s StateWaitingLotteryTicket)) m (LotteryTicketBytes (word_of_nat i)) =
      (Ret (?s StateWaitingLotteryTicket, Inr StateSendKeyReveal), m, [], [])"
    by (simp add: stepSenderWaitLotteryTicket_def io_simps)
  have 2: "drive (stepSenderSendKeyReveal H (?s StateSendKeyReveal)) m [] =
      (Ret (if ?last then (at_round s StateSendKeyReveal i None ?ls, Inr StateVerifyMerkle)
            else (at_round s StateSendKeyReveal (Suc i) None ?ls, Inr StateWaitingChunkRequest)),
       m, [], KeyRevealBytes (word_of_nat i) (c_Key c))"
    by (simp add: stepSenderSendKeyReveal_def io_simps wire_defs Let_def IsLastChunk_def)
  show ?thesis
    by (simp add: drive_Run 1 2 isAllowed_iff)
qed

lemma sender_on_end:
  "\<exists>p. drive (Run (Suc (Suc f)) (at_round s StateVerifyMerkle i pend ls) (senderSteps H)) m [] =
      (p, m, [], RootBytes (merkle_root H ls)) \<and> waiting p \<and>
    drive p m FinalAckBytes = (Ret (Returned (at_round s StateFinished i pend ls) None), m, [], [])"
proof -
  let ?s = "at_round s StateVerifyMerkle i pend ls"
  let ?ack = "io_try ReadFinalAck (\<lambda>e. (?s, Inl (Errorf ''waiting for final ack: %w'' [AErr e])))
    (\<lambda>_. io_bind (Printf_nl ''Sent %d chunks, merkle root: %x'' [AU32 (s_TotalChunks s), AHex (merkle_root H ls)])
      (\<lambda>_. Ret (?s, Inr StateFinished)))"
  let ?p = "io_bind ?ack (run_next (Suc f) (senderSteps H) StateVerifyMerkle)"
  have wait: "drive ?ack m [] = (?ack, m, [], [])"
    by (rule drive_waiting) simp
  have "drive (stepSenderVerifyMerkle H ?s) m [] = (?ack, m, [], RootBytes (merkle_root H ls))"
    unfolding stepSenderVerifyMerkle_def root_of_built_tree at_round_fields sum.case drive_try
    using wait by (simp add: io_simps wire_defs del: drive_try)
  then have "drive (Run (Suc (Suc f)) ?s (senderSteps H)) m [] = (?p, m, [], RootBytes (merkle_root H ls))"
    by (simp add: drive_Run drive_then_waiting)
  moreover have "drive ?p m FinalAckBytes = (Ret (Returned (at_round s StateFinished i pend ls) None), m, [], [])"
    by (simp add: drive_bind io_simps isAllowed_iff GetState_def)
  ultimately show ?thesis by (intro exI [of _ ?p]) simp
qed

section \<open>The rounds of the receiver\<close>

definition receiver_session :: "MetaData \<Rightarrow> Session" where
  "receiver_session h =
     (NewSession RoleReceiver)\<lparr>s_FileID := h_FileID h, s_FileName := h_Name h,
        s_FileSize := ucast (h_FileSize h), s_TotalChunks := h_Reps h,
        s_File := Some (output_path h)\<rparr>"

lemma receiver_on_header:
  assumes "header_ok h"
  shows "drive (RecieveFile H (Suc (Suc f))) m (HeaderBytes h) =
    drive (Run f (at_round (receiver_session h)
        (if h_Reps h = 0 then StateFinished else StateSendChunkRequest) 0 None []) (receiverSteps H))
      (m\<lparr>m_files := (m_files m)(output_path h \<mapsto> [])\<rparr>) []"
  using assms
  by (simp add: RecieveFile_def drive_Run drive_bind io_simps stepReceiverIdle_def isAllowed_iff
      stepReceiverReceiveHeader_def NewSession_def at_round_def receiver_session_def output_path_def
      Let_def)

lemma receiver_requests:
  "drive (Run (Suc (Suc f)) (at_round s StateSendChunkRequest i pend ls) (receiverSteps H)) m [] =
     (Run (Suc f) (at_round s StateWaitingChunkResponse i pend ls) (receiverSteps H), m, [],
      ChunkRequestBytes (word_of_nat i))"
  by (simp add: drive_Run drive_waiting waiting_Run isAllowed_iff io_simps wire_defs
      stepReceiverSendChunkRequest_def stepReceiverWaitChunkResponse_def)

lemma receiver_on_response:
  assumes "response_ok c" and "c_Index c = word_of_nat i"
  shows "drive (Run (Suc (Suc (Suc f))) (at_round s StateWaitingChunkResponse i pend ls) (receiverSteps H)) m
      (ChunkResponseBytes c) =
    (Run (Suc f) (at_round s StateWaitingKeyReveal i (Some (received_chunk (s_FileID s) c)) ls)
       (receiverSteps H), m, [], LotteryTicketBytes (word_of_nat i))"
  using assms
  by (simp add: drive_Run drive_waiting waiting_Run isAllowed_iff io_simps wire_defs
      stepReceiverWaitChunkResponse_def stepReceiverSendLotteryTicket_def
      stepReceiverWaitKeyReveal_def)

text \<open>The key for a chunk that passes the check.\<close>

lemma receiver_on_key:
  assumes out: "s_File s = Some p" "m_files m p = Some sofar" and key: "length key = KeySize"
    and accept: "DecryptAndCheck H (c\<lparr>c_Key := key\<rparr>) = Ret (c\<lparr>c_Key := key, c_Plaintext := plain\<rparr>, Inr plain)"
    and i: "i < unat (s_TotalChunks s)"
  shows "drive (Run (Suc (Suc f)) (at_round s StateWaitingKeyReveal i (Some c) ls) (receiverSteps H)) m
      (KeyRevealBytes (word_of_nat i) key @ rest) =
    drive (Run f (if Suc i = unat (s_TotalChunks s)
        then at_round s StateVerifyMerkle i None (ls @ [GenerateLeaf H c])
        else at_round s StateSendChunkRequest (Suc i) None (ls @ [GenerateLeaf H c])) (receiverSteps H))
      (m\<lparr>m_files := (m_files m)(p \<mapsto> sofar @ plain)\<rparr>) rest"
proof -
  let ?c = "c\<lparr>c_Key := key\<rparr>"
  let ?s = "\<lambda>st c. at_round s st i (Some c) ls"
  let ?ls = "ls @ [GenerateLeaf H c]"
  have 1: "drive (stepReceiverWaitKeyReveal (?s StateWaitingKeyReveal c)) m (KeyRevealBytes (word_of_nat i) key @ rest) =
      (Ret (?s StateWaitingKeyReveal ?c, Inr StateVerifyChunk), m, rest, [])"
    using key by (simp add: stepReceiverWaitKeyReveal_def io_simps)
  have 2: "drive (stepReceiverVerifyChunk H (?s StateVerifyChunk ?c)) m rest =
      (Ret (if Suc i = unat (s_TotalChunks s)
            then (at_round s StateVerifyChunk i None ?ls, Inr StateVerifyMerkle)
            else (at_round s StateVerifyChunk (Suc i) None ?ls, Inr StateSendChunkRequest)),
       m\<lparr>m_files := (m_files m)(p \<mapsto> sofar @ plain)\<rparr>, rest, [])"
    using out i
    by (simp add: stepReceiverVerifyChunk_def accept io_simps Let_def IsLastChunk_at_round)
  show ?thesis by (simp add: drive_Run 1 2 isAllowed_iff)
qed

lemma receiver_on_root:
  assumes "s_File s = Some p" and "length (merkle_root H ls) = HashSize"
  shows "drive (Run (Suc (Suc f)) (at_round s StateVerifyMerkle i pend ls) (receiverSteps H)) m
      (RootBytes (merkle_root H ls)) =
    (Ret (Returned (at_round s StateFinished i pend ls) None), m, [], FinalAckBytes)"
proof -
  let ?s = "at_round s StateVerifyMerkle i pend ls"
  have "drive (stepReceiverVerifyMerkle H ?s) m (RootBytes (merkle_root H ls)) =
      (Ret (?s, Inr StateFinished), m, [], FinalAckBytes)"
    using assms by (simp add: stepReceiverVerifyMerkle_def verifyMerkle_body_def drive_bind io_simps
        wire_defs root_of_built_tree)
  then show ?thesis
    by (subst drive_Run) (simp_all add: isAllowed_iff GetState_def)
qed

section \<open>The rounds of the connected system\<close>

abbreviation (input) system where
  "system l lm r rm br bl \<equiv>
     \<lparr>left = l, left_machine = lm, right = r, right_machine = rm, to_right = br, to_left = bl\<rparr>"

text \<open>The deferred close of \<^verbatim>\<open>SendFile\<close>.\<close>

definition closing :: "string \<Rightarrow> run_result \<Rightarrow> run_result io" where
  "closing p res = io_bind (FileClose (Some p)) (\<lambda>_. Ret res)"

lemma drive_closing: "drive (closing p res) m b = (Ret res, m, b, [])"
  by (simp add: closing_def drive_bind io_simps)

lemma drive_bind_waits:
  "drive p m b = (p', m', b', out) \<Longrightarrow> waiting p' \<Longrightarrow> drive (io_bind p f) m b = (io_bind p' f, m', b', out)"
  by (simp add: drive_bind drive_then_waiting)

text \<open>The chunk of an honest sender passes the receiver's check and has the same leaf on both sides.\<close>

lemma honest_chunk_accepted:
  fixes H fileID content m i
  defines "c \<equiv> honest_chunk H fileID content m i"
  shows "DecryptAndCheck H ((received_chunk fileID' c)\<lparr>c_Key := c_Key c\<rparr>) =
    Ret ((received_chunk fileID' c)\<lparr>c_Key := c_Key c, c_Plaintext := piece content i\<rparr>, Inr (piece content i))"
  unfolding DecryptAndCheck_accepts
  by (simp add: c_def received_chunk_def honest_chunk_def NewChunk_def Let_def aes_key_ok_def
      gcm_roundtrip length_piece_limit)

lemma GenerateLeaf_received: "GenerateLeaf H (received_chunk (c_FileID c) c) = GenerateLeaf H c"
  by (simp add: GenerateLeaf_def received_chunk_def)

lemma length_GenerateLeaf: "(\<And>x. length (H x) = HashSize) \<Longrightarrow> length (GenerateLeaf H c) = HashSize"
  by (simp add: GenerateLeaf_def length_Keccak)

text \<open>Both sides are about the same transfer of \<open>n\<close> chunks.\<close>

definition paired :: "Session \<Rightarrow> Session \<Rightarrow> string \<Rightarrow> nat \<Rightarrow> bool" where
  "paired s r out n \<longleftrightarrow> s_FileID r = s_FileID s \<and> s_TotalChunks r = s_TotalChunks s \<and>
     unat (s_TotalChunks s) = n \<and> s_File r = Some out"

text \<open>The first half of a round: request, response, ticket.\<close>

lemma half_round:
  assumes len: "\<And>x. length (H x) = HashSize" and pair: "paired s r out n" and i: "i < n"
    and serves: "serves s content lm"
  shows "let c = honest_chunk H (s_FileID s) content lm i in
    duplex_step\<^sup>*\<^sup>*
      (system (io_bind (Run (Suc (Suc (Suc f))) (at_round s StateWaitingChunkRequest i None ls) (senderSteps H)) k) lm
        (Run (Suc (Suc (Suc g))) (at_round r StateWaitingChunkResponse i None ls) (receiverSteps H)) rm
        [] (ChunkRequestBytes (word_of_nat i)))
      (system (io_bind (Run (Suc f) (at_round s StateWaitingLotteryTicket i (Some c) ls) (senderSteps H)) k)
        (lm\<lparr>m_pos := m_pos lm + 44\<rparr>)
        (Run (Suc g) (at_round r StateWaitingKeyReveal i (Some (received_chunk (s_FileID s) c)) ls) (receiverSteps H)) rm
        [] (LotteryTicketBytes (word_of_nat i)))"
proof -
  let ?c = "honest_chunk H (s_FileID s) content lm i"
  have lt: "i < 2 ^ 32" and fid: "s_FileID r = s_FileID s"
    using pair i u32_less [of "s_TotalChunks s"] by (auto simp: paired_def)
  let ?l = "Run (Suc f) (at_round s StateWaitingLotteryTicket i (Some ?c) ls) (senderSteps H)"
  have "waiting ?l"
    by (rule waiting_Run) (simp_all add: stepSenderWaitLotteryTicket_def)
  note left = drive_bind_waits [OF sender_on_request [OF serves lt, unfolded Let_def] this]
  have right: "drive (Run (Suc (Suc (Suc g))) (at_round r StateWaitingChunkResponse i None ls) (receiverSteps H)) rm
      (ChunkResponseBytes ?c) =
    (Run (Suc g) (at_round r StateWaitingKeyReveal i (Some (received_chunk (s_FileID s) ?c)) ls) (receiverSteps H),
     rm, [], LotteryTicketBytes (word_of_nat i))"
    using receiver_on_response [OF honest_chunk_ok [of H, OF len]] fid by simp
  show ?thesis unfolding Let_def
    by (rule rtranclp_trans [OF run_left [OF left]]) (simp add: run_right [OF right, of _ _ "[]", simplified])
qed

text \<open>
  The second half: the key, the check and the next request, or, after the last chunk, the key with
  the root and the acknowledgement.
\<close>

lemma receiver_on_honest_key:
  fixes H s content lm i
  defines "c \<equiv> honest_chunk H (s_FileID s) content lm i"
  assumes pair: "paired s r out n" and i: "i < n" and sofar: "m_files rm out = Some sofar"
  shows "drive (Run (Suc (Suc g)) (at_round r StateWaitingKeyReveal i (Some (received_chunk (s_FileID s) c)) ls)
      (receiverSteps H)) rm (KeyRevealBytes (word_of_nat i) (c_Key c) @ rest) =
    drive (Run g (if Suc i = n then at_round r StateVerifyMerkle i None (ls @ [GenerateLeaf H c])
        else at_round r StateSendChunkRequest (Suc i) None (ls @ [GenerateLeaf H c])) (receiverSteps H))
      (rm\<lparr>m_files := (m_files rm)(out \<mapsto> sofar @ piece content i)\<rparr>) rest"
proof -
  have leaf: "GenerateLeaf H (received_chunk (s_FileID s) c) = GenerateLeaf H c"
    using GenerateLeaf_received [of H c] by (simp add: c_def)
  have *: "s_File r = Some out" "length (c_Key c) = KeySize" "i < unat (s_TotalChunks r)"
      "unat (s_TotalChunks r) = n"
    using pair i by (simp_all add: paired_def c_def)
  have accept: "DecryptAndCheck H ((received_chunk (s_FileID s) c)\<lparr>c_Key := c_Key c\<rparr>) =
      Ret ((received_chunk (s_FileID s) c)\<lparr>c_Key := c_Key c, c_Plaintext := piece content i\<rparr>, Inr (piece content i))"
    unfolding c_def by (rule honest_chunk_accepted)
  show ?thesis
    using receiver_on_key [OF *(1) sofar *(2) accept *(3)]
    by (simp only: leaf *(4))
qed

lemma next_round:
  fixes H s content lm i
  defines "c \<equiv> honest_chunk H (s_FileID s) content lm i"
  assumes pair: "paired s r out n" and i: "Suc i < n" and sofar: "m_files rm out = Some sofar"
  shows "duplex_step\<^sup>*\<^sup>*
      (system (io_bind (Run (Suc (Suc (Suc f))) (at_round s StateWaitingLotteryTicket i (Some c) ls) (senderSteps H)) k) lm'
        (Run (Suc (Suc (Suc (Suc g)))) (at_round r StateWaitingKeyReveal i (Some (received_chunk (s_FileID s) c)) ls)
          (receiverSteps H)) rm
        [] (LotteryTicketBytes (word_of_nat i)))
      (system (io_bind (Run (Suc f) (at_round s StateWaitingChunkRequest (Suc i) None (ls @ [GenerateLeaf H c]))
          (senderSteps H)) k) lm'
        (Run (Suc g) (at_round r StateWaitingChunkResponse (Suc i) None (ls @ [GenerateLeaf H c])) (receiverSteps H))
        (rm\<lparr>m_files := (m_files rm)(out \<mapsto> sofar @ piece content i)\<rparr>)
        [] (ChunkRequestBytes (word_of_nat (Suc i))))"
proof -
  let ?ls = "ls @ [GenerateLeaf H c]"
  let ?l = "Run (Suc f) (at_round s StateWaitingChunkRequest (Suc i) None ?ls) (senderSteps H)"
  have notlast: "\<not> IsLastChunk (at_round s StateSendKeyReveal i (Some c) ls)"
    using pair i IsLastChunk_at_round [of i s] by (simp add: paired_def)
  have wait: "waiting ?l"
    by (rule waiting_Run) (simp_all add: stepSenderWaitChunkRequest_def)
  have left: "drive (Run (Suc (Suc (Suc f))) (at_round s StateWaitingLotteryTicket i (Some c) ls) (senderSteps H)) lm'
      (LotteryTicketBytes (word_of_nat i)) = (?l, lm', [], KeyRevealBytes (word_of_nat i) (c_Key c))"
    using notlast by (simp add: sender_on_ticket drive_waiting [OF wait])
  have right: "drive (Run (Suc (Suc (Suc (Suc g)))) (at_round r StateWaitingKeyReveal i
        (Some (received_chunk (s_FileID s) c)) ls) (receiverSteps H)) rm (KeyRevealBytes (word_of_nat i) (c_Key c)) =
      (Run (Suc g) (at_round r StateWaitingChunkResponse (Suc i) None ?ls) (receiverSteps H),
       rm\<lparr>m_files := (m_files rm)(out \<mapsto> sofar @ piece content i)\<rparr>, [], ChunkRequestBytes (word_of_nat (Suc i)))"
    using receiver_on_honest_key [OF pair _ sofar, where rest = "[]" and i = i and H = H and content = content and lm = lm] i
    by (simp add: c_def receiver_requests)
  show ?thesis
    by (rule rtranclp_trans [OF run_left [OF drive_bind_waits [OF left wait]]])
      (simp add: run_right [OF right, of _ _ "[]", simplified])
qed

lemma last_round:
  fixes H s content lm i
  defines "c \<equiv> honest_chunk H (s_FileID s) content lm i"
  assumes len: "\<And>x. length (H x) = HashSize" and pair: "paired s r out n" and i: "Suc i = n"
    and leaves: "\<forall>x\<in>set ls. length x = HashSize" and sofar: "m_files rm out = Some sofar"
  shows "duplex_step\<^sup>*\<^sup>*
      (system (io_bind (Run (Suc (Suc (Suc (Suc f)))) (at_round s StateWaitingLotteryTicket i (Some c) ls) (senderSteps H))
          (closing p)) lm'
        (Run (Suc (Suc (Suc (Suc g)))) (at_round r StateWaitingKeyReveal i (Some (received_chunk (s_FileID s) c)) ls)
          (receiverSteps H)) rm
        [] (LotteryTicketBytes (word_of_nat i)))
      (system (Ret (Returned (at_round s StateFinished i None (ls @ [GenerateLeaf H c])) None)) lm'
        (Ret (Returned (at_round r StateFinished i None (ls @ [GenerateLeaf H c])) None))
        (rm\<lparr>m_files := (m_files rm)(out \<mapsto> sofar @ piece content i)\<rparr>) [] [])"
proof -
  let ?ls = "ls @ [GenerateLeaf H c]"
  let ?root = "merkle_root H ?ls"
  let ?rm = "rm\<lparr>m_files := (m_files rm)(out \<mapsto> sofar @ piece content i)\<rparr>"
  have last: "IsLastChunk (at_round s StateSendKeyReveal i (Some c) ls)"
    using pair i IsLastChunk_at_round [of i s] by (simp add: paired_def)
  obtain l where l: "drive (Run (Suc (Suc f)) (at_round s StateVerifyMerkle i None ?ls) (senderSteps H)) lm' [] =
      (l, lm', [], RootBytes ?root)" and wait: "waiting l"
    and fin: "drive l lm' FinalAckBytes = (Ret (Returned (at_round s StateFinished i None ?ls) None), lm', [], [])"
    using sender_on_end by blast
  have left: "drive (Run (Suc (Suc (Suc (Suc f)))) (at_round s StateWaitingLotteryTicket i (Some c) ls) (senderSteps H)) lm'
      (LotteryTicketBytes (word_of_nat i)) = (l, lm', [], KeyRevealBytes (word_of_nat i) (c_Key c) @ RootBytes ?root)"
    using last by (simp add: sender_on_ticket l)
  have root: "length ?root = HashSize"
    using leaves by (intro length_merkle_root) (simp_all add: len length_GenerateLeaf)
  have "s_File r = Some out" using pair by (simp add: paired_def)
  note on_root = receiver_on_root [OF this root]
  have right: "drive (Run (Suc (Suc (Suc (Suc g)))) (at_round r StateWaitingKeyReveal i
        (Some (received_chunk (s_FileID s) c)) ls) (receiverSteps H)) rm
        (KeyRevealBytes (word_of_nat i) (c_Key c) @ RootBytes ?root) =
      (Ret (Returned (at_round r StateFinished i None ?ls) None), ?rm, [], FinalAckBytes)"
    using receiver_on_honest_key [OF pair _ sofar, where rest = "RootBytes ?root" and i = i and H = H and content = content and lm = lm] i
    by (simp add: c_def on_root [unfolded c_def])
  have "drive (io_bind l (closing p)) lm' FinalAckBytes =
      (Ret (Returned (at_round s StateFinished i None ?ls) None), lm', [], [])"
    by (simp add: drive_bind fin drive_closing)
  note 3 = run_left [OF this, where br = "[]", unfolded append_Nil]
  note 1 = run_left [OF drive_bind_waits [OF left wait], where br = "[]", unfolded append_Nil]
  note 2 = run_right [OF right, where bl = "[]", unfolded append_Nil]
  show ?thesis by (rule rtranclp_trans [OF 1 rtranclp_trans [OF 2 3]])
qed

text \<open>From any round to the end.\<close>

lemma rounds:
  assumes len: "\<And>x. length (H x) = HashSize" and pair: "paired s r out n"
  shows "i < n \<Longrightarrow> serves s content lm \<Longrightarrow> m_files rm out = Some (take (ChunkSize * i) content) \<Longrightarrow>
    \<forall>x\<in>set ls. length x = HashSize \<Longrightarrow> 4 * (n - i) + 2 \<le> f \<Longrightarrow> 5 * (n - i) + 1 \<le> g \<Longrightarrow>
    \<exists>lm' i' ls'. m_files lm' = m_files lm \<and> duplex_step\<^sup>*\<^sup>*
      (system (io_bind (Run f (at_round s StateWaitingChunkRequest i None ls) (senderSteps H)) (closing p)) lm
        (Run g (at_round r StateWaitingChunkResponse i None ls) (receiverSteps H)) rm
        [] (ChunkRequestBytes (word_of_nat i)))
      (system (Ret (Returned (at_round s StateFinished i' None ls') None)) lm'
        (Ret (Returned (at_round r StateFinished i' None ls') None))
        (rm\<lparr>m_files := (m_files rm)(out \<mapsto> take (ChunkSize * n) content)\<rparr>) [] [])"
proof (induction "n - Suc i" arbitrary: i f g ls lm rm)
  case 0
  then have n: "Suc i = n" by simp
  with 0(6,7) have f: "f = Suc (Suc (Suc (Suc (Suc (Suc (f - 6))))))"
    and g: "g = Suc (Suc (Suc (Suc (Suc (Suc (g - 6))))))"
    by simp_all
  let ?c = "honest_chunk H (s_FileID s) content lm i"
  have all: "take (ChunkSize * i) content @ piece content i = take (ChunkSize * n) content"
    unfolding n [symmetric] by (rule take_piece)
  note 1 = half_round [where H = H, OF len pair 0(2,3), unfolded Let_def]
  note 2 = last_round [where H = H, OF len pair n 0(5,4)]
  have "m_files (lm\<lparr>m_pos := m_pos lm + 44\<rparr>) = m_files lm" by simp
  with rtranclp_trans [OF 1 2, where f1 = "f - 6" and p1 = p and g1 = "g - 6",
      folded f g, unfolded all] show ?case by blast
next
  case (Suc k)
  then have n: "Suc i < n" and k: "k = n - Suc (Suc i)" by simp_all
  define f' g' where "f' = f - 5" and "g' = g - 6"
  with n Suc(7,8) have f: "f = Suc (Suc (Suc (Suc (Suc f'))))" and g: "g = Suc (Suc (Suc (Suc (Suc (Suc g')))))"
    and f': "4 * (n - Suc i) + 2 \<le> Suc f'" and g': "5 * (n - Suc i) + 1 \<le> Suc g'"
    by simp_all
  let ?c = "honest_chunk H (s_FileID s) content lm i"
  let ?lm = "lm\<lparr>m_pos := m_pos lm + 44\<rparr>"
  let ?rm = "rm\<lparr>m_files := (m_files rm)(out \<mapsto> take (ChunkSize * Suc i) content)\<rparr>"
  let ?ls = "ls @ [GenerateLeaf H ?c]"
  note 1 = half_round [where H = H, OF len pair Suc(3,4), unfolded Let_def]
  note 2 = next_round [where content = content and H = H, OF pair n Suc(5), unfolded take_piece]
  have leaves: "\<forall>x\<in>set ?ls. length x = HashSize"
    using Suc(6) by (simp add: length_GenerateLeaf len)
  obtain lm' i' ls' where lm': "m_files lm' = m_files ?lm" and 3: "duplex_step\<^sup>*\<^sup>*
      (system (io_bind (Run (Suc f') (at_round s StateWaitingChunkRequest (Suc i) None ?ls) (senderSteps H)) (closing p)) ?lm
        (Run (Suc g') (at_round r StateWaitingChunkResponse (Suc i) None ?ls) (receiverSteps H)) ?rm
        [] (ChunkRequestBytes (word_of_nat (Suc i))))
      (system (Ret (Returned (at_round s StateFinished i' None ls') None)) lm'
        (Ret (Returned (at_round r StateFinished i' None ls') None))
        (?rm\<lparr>m_files := (m_files ?rm)(out \<mapsto> take (ChunkSize * n) content)\<rparr>) [] [])"
    using Suc(1) [OF k n, of ?lm ?rm ?ls "Suc f'" "Suc g'"] Suc(4) leaves f' g' by auto
  have "m_files lm' = m_files lm" using lm' by simp
  moreover have rm': "?rm\<lparr>m_files := (m_files ?rm)(out \<mapsto> x)\<rparr> = rm\<lparr>m_files := (m_files rm)(out \<mapsto> x)\<rparr>" for x
    by simp
  ultimately show ?case
    using rtranclp_trans [OF 1 rtranclp_trans [OF 2 3 [unfolded rm']], folded f g] by blast
qed

section \<open>From the start\<close>

text \<open>The header \<^verbatim>\<open>SendFile\<close> announces for a file on machine \<open>m\<close>.\<close>

definition announced :: "digest \<Rightarrow> machine \<Rightarrow> string \<Rightarrow> bytes \<Rightarrow> MetaData" where
  "announced H m path content =
     (let size = word_of_nat (length content) :: u64
      in (metadata_of (base_name path) size)
           \<lparr>h_FileID := Keccak H [str_bytes (base_name path), PutUint64 size, PutUint64 (word_of_int (m_now m))]\<rparr>)"

lemma announced_fields:
  assumes "length content \<le> ChunkSize * (2 ^ 32 - 1)"
  shows "h_Name (announced H m path content) = base_name path"
    and "h_Reps (announced H m path content) = word_of_nat (chunk_count (length content))"
    and "chunk_count (length content) < 2 ^ 32"
  using assms by (simp_all add: announced_def metadata_of_size Let_def chunk_count_def)

lemma ucast_u32_u64: "(ucast (ucast (v :: u32) :: u64) :: u32) = v"
  by (rule bit_word_eqI) (simp add: bit_simps)

lemma drive_SendFile:
  fixes H m path content
  defines "h \<equiv> announced H m path content"
  assumes here: "m_files m path = Some content"
  shows "drive (SendFile H (Suc (Suc f)) path) m [] =
    sends (HeaderBytes h)
      (drive (io_bind (Run f (at_round (sender_session path (h_FileID h) h)
          (if h_Reps h = 0 then StateFinished else StateWaitingChunkRequest) 0 None []) (senderSteps H)) (closing path)) m [])"
proof -
  let ?s = "sender_session path (h_FileID h) h"
  have start: "?s = at_round ?s StateIdle 0 None []"
    by (simp add: at_round_def sender_session_def NewSession_def)
  have header: "\<lparr>h_Name = s_FileName (at_round ?s st i p l), h_FileSize = ucast (s_FileSize (at_round ?s st i p l)),
      h_Reps = s_TotalChunks ?s, h_FileID = s_FileID ?s\<rparr> = h" for st i p l
    by (cases h) (simp add: at_round_def sender_session_def ucast_u32_u64)
  have reps: "s_TotalChunks ?s = h_Reps h"
    by (simp add: sender_session_def)
  have step: "drive (stepSenderSendHeader (at_round ?s StateSendHeader 0 None [])) m [] =
      (Ret (at_round ?s StateSendHeader 0 None [],
        Inr (if h_Reps h = 0 then StateFinished else StateWaitingChunkRequest)), m, [], HeaderBytes h)"
    unfolding stepSenderSendHeader_def Let_def at_round_fields header drive_try
    by (simp add: io_simps wire_defs reps)
  have "drive (SendFile H (Suc (Suc f)) path) m [] =
      drive (io_bind (Run (Suc (Suc f)) ?s (senderSteps H)) (closing path)) m []"
    using here
    by (simp add: SendFile_def generateFileID_def PrepareMetadata_def drive_bind io_simps Let_def
        closing_def [abs_def] h_def announced_def)
  also have "\<dots> = drive (io_bind (Run (Suc (Suc f)) (at_round ?s StateIdle 0 None []) (senderSteps H)) (closing path)) m []"
    by (subst start) (rule refl)
  also have "\<dots> = sends (HeaderBytes h)
      (drive (io_bind (Run f (at_round ?s
          (if h_Reps h = 0 then StateFinished else StateWaitingChunkRequest) 0 None []) (senderSteps H)) (closing path)) m [])"
    by (simp add: drive_bind drive_Run stepSenderIdle_def step isAllowed_iff drive_then_sends)
  finally show ?thesis .
qed

text \<open>The two sessions of a transfer, and what its start establishes.\<close>

abbreviation (input) "out_path path \<equiv> ''./received/'' @ base_name path"

abbreviation (input) "sender_of path h \<equiv> sender_session path (h_FileID h) h"

lemma transfer_setup:
  fixes H m path content
  defines "h \<equiv> announced H m path content"
  assumes len: "\<And>x. length (H x) = HashSize" and here: "m_files m path = Some content"
    and size: "length content \<le> ChunkSize * (2 ^ 32 - 1)" and name: "length (base_name path) < 2 ^ 32"
  shows "output_path h = out_path path" and "header_ok h" and "serves (sender_of path h) content m"
    and "paired (sender_of path h) (receiver_session h) (out_path path) (chunk_count (length content))"
    and "h_Reps h = 0 \<longleftrightarrow> content = []"
proof -
  note fields = announced_fields [OF size]
  show out: "output_path h = out_path path" by (simp add: output_path_def h_def fields)
  show "header_ok h"
    using name by (simp add: header_ok_def h_def fields) (simp add: announced_def Let_def length_Keccak len)
  show "serves (sender_of path h) content m"
    using here by (simp add: serves_def sender_session_def NewSession_def)
  show "paired (sender_of path h) (receiver_session h) (out_path path) (chunk_count (length content))"
    using out by (simp add: paired_def sender_session_def receiver_session_def h_def fields
        unat_of_nat_u32 [OF fields(3)])
  have "h_Reps h = 0 \<longleftrightarrow> chunk_count (length content) = 0"
    using unat_of_nat_u32 [OF fields(3)] unat_eq_0 [of "h_Reps h"] unfolding h_def fields(2) by simp
  then show "h_Reps h = 0 \<longleftrightarrow> content = []" by simp
qed

text \<open>One run to the end: for the empty file, and for a file with chunks.\<close>

lemma transfer_run_empty:
  assumes len: "\<And>x. length (H x) = HashSize" and here: "m_files sm path = Some []"
    and name: "length (base_name path) < 2 ^ 32" and f: "4 \<le> f" and g: "4 \<le> g"
  shows "\<exists>sL sR. duplex_step\<^sup>*\<^sup>* (system (SendFile H f path) sm (RecieveFile H g) rm [] [])
      (system (Ret (Returned sL None)) sm (Ret (Returned sR None))
        (rm\<lparr>m_files := (m_files rm)(out_path path \<mapsto> [])\<rparr>) [] []) \<and>
    s_state sL = StateFinished \<and> s_state sR = StateFinished"
proof -
  let ?h = "announced H sm path []"
  have size: "length ([] :: bytes) \<le> ChunkSize * (2 ^ 32 - 1)" by simp
  note start = transfer_setup [where H = H, OF len here size name]
  have reps: "h_Reps ?h = 0" using start(5) by simp
  have f': "f = Suc (Suc (Suc (f - 3)))" and g': "g = Suc (Suc (Suc (g - 3)))" using f g by simp_all
  have "drive (SendFile H f path) sm [] =
      (Ret (Returned (at_round (sender_of path ?h) StateFinished 0 None []) None), sm, [], HeaderBytes ?h)"
    by (subst f') (simp add: drive_SendFile [OF here] reps drive_bind drive_closing)
  note 1 = run_left [OF this, where br = "[]", unfolded append_Nil]
  have "drive (RecieveFile H g) rm (HeaderBytes ?h) =
      (Ret (Returned (at_round (receiver_session ?h) StateFinished 0 None []) None),
       rm\<lparr>m_files := (m_files rm)(out_path path \<mapsto> [])\<rparr>, [], [])"
    using start(1,2) by (subst g') (simp add: receiver_on_header reps)
  note 2 = run_right [OF this, where bl = "[]", unfolded append_Nil]
  from rtranclp_trans [OF 1 2] show ?thesis by (metis at_round_fields(1))
qed

lemma transfer_run_chunks:
  assumes len: "\<And>x. length (H x) = HashSize" and here: "m_files sm path = Some content"
    and size: "length content \<le> ChunkSize * (2 ^ 32 - 1)" and name: "length (base_name path) < 2 ^ 32"
    and f: "4 * chunk_count (length content) + 4 \<le> f" and g: "5 * chunk_count (length content) + 4 \<le> g"
    and ne: "content \<noteq> []"
  shows "\<exists>sL sR sm'. duplex_step\<^sup>*\<^sup>* (system (SendFile H f path) sm (RecieveFile H g) rm [] [])
      (system (Ret (Returned sL None)) sm' (Ret (Returned sR None))
        (rm\<lparr>m_files := (m_files rm)(out_path path \<mapsto> content)\<rparr>) [] []) \<and>
    s_state sL = StateFinished \<and> s_state sR = StateFinished \<and> m_files sm' = m_files sm"
proof -
  let ?h = "announced H sm path content"
  let ?s = "sender_of path ?h" and ?r = "receiver_session ?h" and ?n = "chunk_count (length content)"
  let ?rm = "rm\<lparr>m_files := (m_files rm)(out_path path \<mapsto> [])\<rparr>"
  note start = transfer_setup [where H = H, OF len here size name]
  have reps: "h_Reps ?h \<noteq> 0" using start(5) ne by simp
  have f': "f = Suc (Suc (Suc (f - 3)))" and g': "g = Suc (Suc (Suc (Suc (g - 4))))" using f g by simp_all
  let ?l = "Run (Suc (f - 3)) (at_round ?s StateWaitingChunkRequest 0 None []) (senderSteps H)"
  have "waiting ?l" by (rule waiting_Run) (simp_all add: stepSenderWaitChunkRequest_def)
  then have "drive (SendFile H f path) sm [] = (io_bind ?l (closing path), sm, [], HeaderBytes ?h)"
    by (subst f') (simp add: drive_SendFile [OF here] reps drive_waiting)
  note 1 = run_left [OF this, where br = "[]", unfolded append_Nil]
  let ?r' = "Run (Suc (g - 4)) (at_round ?r StateWaitingChunkResponse 0 None []) (receiverSteps H)"
  have "drive (RecieveFile H g) rm (HeaderBytes ?h) = (?r', ?rm, [], ChunkRequestBytes (word_of_nat 0))"
    using reps by (subst g') (simp only: receiver_on_header [OF start(2)] if_False receiver_requests start(1))
  note 2 = run_right [OF this, where bl = "[]", unfolded append_Nil]
  have conds: "0 < ?n" "m_files ?rm (out_path path) = Some (take (ChunkSize * 0) content)"
      "\<forall>x\<in>set []. length (x :: bytes) = HashSize" "4 * (?n - 0) + 2 \<le> Suc (f - 3)" "5 * (?n - 0) + 1 \<le> Suc (g - 4)"
    using f g ne chunk_count_0 [of "length content"] by (simp_all del: chunk_count_0)
  obtain lm' i' ls' where lm': "m_files lm' = m_files sm" and 3: "duplex_step\<^sup>*\<^sup>*
      (system (io_bind ?l (closing path)) sm ?r' ?rm [] (ChunkRequestBytes (word_of_nat 0)))
      (system (Ret (Returned (at_round ?s StateFinished i' None ls') None)) lm'
        (Ret (Returned (at_round ?r StateFinished i' None ls') None))
        (?rm\<lparr>m_files := (m_files ?rm)(out_path path \<mapsto> take (ChunkSize * ?n) content)\<rparr>) [] [])"
    using rounds [where H = H, OF len start(4) conds(1) start(3) conds(2-5)] by blast
  have "take (ChunkSize * ?n) content = content" using chunk_count_covers by simp
  then have "?rm\<lparr>m_files := (m_files ?rm)(out_path path \<mapsto> take (ChunkSize * ?n) content)\<rparr> =
      rm\<lparr>m_files := (m_files rm)(out_path path \<mapsto> content)\<rparr>" by simp
  with rtranclp_trans [OF 1 rtranclp_trans [OF 2 3]] lm' show ?thesis
    by (metis at_round_fields(1))
qed

lemma transfer_run:
  assumes "\<And>x. length (H x) = HashSize" and "m_files sm path = Some content"
    and "length content \<le> ChunkSize * (2 ^ 32 - 1)" and "length (base_name path) < 2 ^ 32"
    and "4 * chunk_count (length content) + 4 \<le> f" and "5 * chunk_count (length content) + 4 \<le> g"
  shows "\<exists>sL sR sm'. duplex_step\<^sup>*\<^sup>* (system (SendFile H f path) sm (RecieveFile H g) rm [] [])
      (system (Ret (Returned sL None)) sm' (Ret (Returned sR None))
        (rm\<lparr>m_files := (m_files rm)(out_path path \<mapsto> content)\<rparr>) [] []) \<and>
    s_state sL = StateFinished \<and> s_state sR = StateFinished \<and> m_files sm' = m_files sm"
  using transfer_run_chunks [where H = H, OF assms, where rm = rm]
    transfer_run_empty [where H = H and rm = rm, OF assms(1) _ assms(4), of sm f g] assms(2,5,6)
  by (cases "content = []") (fastforce, blast)

text \<open>A run that has come to an end decides all others.\<close>

lemma run_decides:
  assumes "duplex_step\<^sup>*\<^sup>* a z" and "left z = Ret x" and "right z = Ret y"
  shows "\<exists>N. \<forall>k d'. (duplex_step ^^ k) a d' \<longrightarrow> k \<le> N \<and> (duplex_step ^^ (N - k)) d' z"
proof -
  obtain N where "(duplex_step ^^ N) a z" using assms(1) rtranclp_imp_relpowp by metis
  with duplex_final [OF assms(2,3)] show ?thesis using duplex.one_run_decides by blast
qed

text \<open>C1: end to end. \<^verbatim>\<open>SendFile\<close> on one machine and \<^verbatim>\<open>RecieveFile\<close> on another, connected by a
  stream that delivers every byte, for any file of up to \<open>2 ^ 32 - 1\<close> chunks and any digest of 32
  bytes: whatever the interleaving, no run makes more than \<open>N\<close> calls, none gets stuck before it has
  made \<open>N\<close>, and all end in the same state, in which both sides have finished without an error, the
  receiver's machine has the sender's file, byte for byte, under \<^verbatim>\<open>./received/\<close> and is otherwise
  unchanged, the sender's files are unchanged and no byte is left in the stream.\<close>

theorem transfer_delivers:
  assumes "\<And>x. length (H x) = HashSize" and "m_files sm path = Some content"
    and "length content \<le> ChunkSize * (2 ^ 32 - 1)" and "length (base_name path) < 2 ^ 32"
    and "4 * chunk_count (length content) + 4 \<le> f" and "5 * chunk_count (length content) + 4 \<le> g"
  shows "\<exists>N d. (\<forall>k d'. (duplex_step ^^ k) (system (SendFile H f path) sm (RecieveFile H g) rm [] []) d' \<longrightarrow>
      k \<le> N \<and> (duplex_step ^^ (N - k)) d' d) \<and>
    (\<exists>s. left d = Ret (Returned s None) \<and> s_state s = StateFinished) \<and>
    (\<exists>s. right d = Ret (Returned s None) \<and> s_state s = StateFinished) \<and>
    m_files (right_machine d) = (m_files rm)(''./received/'' @ base_name path \<mapsto> content) \<and>
    m_files (left_machine d) = m_files sm \<and> to_right d = [] \<and> to_left d = []"
proof -
  obtain sL sR sm' where run: "duplex_step\<^sup>*\<^sup>* (system (SendFile H f path) sm (RecieveFile H g) rm [] [])
      (system (Ret (Returned sL None)) sm' (Ret (Returned sR None))
        (rm\<lparr>m_files := (m_files rm)(out_path path \<mapsto> content)\<rparr>) [] [])"
      (is "duplex_step\<^sup>*\<^sup>* _ ?z")
    and fin: "s_state sL = StateFinished" "s_state sR = StateFinished" "m_files sm' = m_files sm"
    using transfer_run [where H = H, OF assms, where rm = rm] by blast
  obtain N where "\<forall>k d'. (duplex_step ^^ k) (system (SendFile H f path) sm (RecieveFile H g) rm [] []) d' \<longrightarrow>
      k \<le> N \<and> (duplex_step ^^ (N - k)) d' ?z"
    using run_decides [OF run duplex.select_convs(1,3)] by blast
  then show ?thesis using fin by (intro exI [of _ N] exI [of _ ?z]) simp
qed

end
