(* ===== verification/Integrity.thy ===== *)
theory Integrity
  imports Sender Receiver
begin

text \<open>
  What the Merkle root and the commitments buy: a receiver that accepted the root a sender computed
  has stored the plaintexts that sender sealed, whatever happened to the messages in between, unless
  two different messages hashed by the two sides have the same digest.
\<close>

section \<open>The messages a transfer hashes\<close>

definition leaf_message :: "Chunk \<Rightarrow> bytes" where
  "leaf_message c = c_FileID c @ PutUint32 (c_Index c) @ c_Nonce c @ c_Ciphertext c @ c_HResp c"

definition commit_message :: "Chunk \<Rightarrow> bytes" where
  "commit_message c = c_Key c @ c_Plaintext c"

definition hashed :: "digest \<Rightarrow> Chunk list \<Rightarrow> bytes list" where
  "hashed H cs = map leaf_message cs @ map commit_message cs @ merkle_inputs H (map (GenerateLeaf H) cs)"

lemma GenerateLeaf_message: "GenerateLeaf H c = H (leaf_message c)"
  by (simp add: GenerateLeaf_def leaf_message_def Keccak_eq)

text \<open>A chunk with fields of the fixed sizes whose commitment is the digest of its key and plaintext.\<close>

definition committed :: "digest \<Rightarrow> Chunk \<Rightarrow> bool" where
  "committed H c \<longleftrightarrow> length (c_FileID c) = HashSize \<and> length (c_Nonce c) = NonceSize \<and>
     length (c_Key c) = KeySize \<and> c_HResp c = H (commit_message c)"

lemma leaf_message_inject:
  assumes "leaf_message c = leaf_message d" and "committed H c" and "committed H d" and "\<And>x. length (H x) = HashSize"
  shows "c_HResp c = c_HResp d"
proof -
  have "length (c_Ciphertext c) = length (c_Ciphertext d)"
    using arg_cong [OF assms(1), of length] assms(2-4)
    by (simp add: leaf_message_def committed_def)
  with assms show ?thesis by (simp add: leaf_message_def committed_def)
qed

lemma map_inject_on:
  assumes "map f xs = map f ys" and "\<And>x y. x \<in> set xs \<Longrightarrow> y \<in> set ys \<Longrightarrow> f x = f y \<Longrightarrow> g x = g y"
  shows "map g xs = map g ys"
  using assms by (induction xs ys rule: list_induct2') auto

lemma same_root_same_plaintexts:
  assumes len: "\<And>x. length (H x) = HashSize" and n: "length cs = length ds"
    and c: "\<And>c. c \<in> set cs \<Longrightarrow> committed H c" and d: "\<And>d. d \<in> set ds \<Longrightarrow> committed H d"
    and root: "merkle_root H (map (GenerateLeaf H) cs) = merkle_root H (map (GenerateLeaf H) ds)"
  shows "map c_Plaintext cs = map c_Plaintext ds \<or> collision H (hashed H cs) (hashed H ds)"
proof (rule disjCI)
  assume none: "\<not> collision H (hashed H cs) (hashed H ds)"
  then have tree: "\<not> collision H (merkle_inputs H (map (GenerateLeaf H) cs)) (merkle_inputs H (map (GenerateLeaf H) ds))"
    and leaf: "\<not> collision H (map leaf_message cs) (map leaf_message ds)"
    and commit: "\<not> collision H (map commit_message cs) (map commit_message ds)"
    by (auto simp: hashed_def dest: collision_append)
  have "\<forall>x\<in>set (map (GenerateLeaf H) cs) \<union> set (map (GenerateLeaf H) ds). length x = HashSize"
    by (auto simp: GenerateLeaf_message len)
  from root_eq_or_collision [where H = H, OF len _ this root] n tree
  have "map (GenerateLeaf H) cs = map (GenerateLeaf H) ds"
    by auto
  then have "map H (map leaf_message cs) = map H (map leaf_message ds)"
    by (simp add: GenerateLeaf_message [symmetric] comp_def)
  with leaf have "map leaf_message cs = map leaf_message ds"
    using map_eq_or_collision by blast
  then have "map c_HResp cs = map c_HResp ds"
    by (rule map_inject_on) (auto intro: leaf_message_inject [OF _ c d len])
  moreover have "map c_HResp cs = map H (map commit_message cs)" "map c_HResp ds = map H (map commit_message ds)"
    using c d by (auto simp: committed_def)
  ultimately have "map H (map commit_message cs) = map H (map commit_message ds)"
    by simp
  with commit have "map commit_message cs = map commit_message ds"
    using map_eq_or_collision by blast
  then show "map c_Plaintext cs = map c_Plaintext ds"
    by (rule map_inject_on) (use c d in \<open>auto simp: commit_message_def committed_def\<close>)
qed

section \<open>Two executions\<close>

lemma sealed_committed: "sealed_chunk H fileID i c \<Longrightarrow> length fileID = HashSize \<Longrightarrow> committed H c"
  by (simp add: sealed_chunk_def committed_def commit_message_def)

lemma accepted_committed: "accepted_chunk H fileID i c \<Longrightarrow> length fileID = HashSize \<Longrightarrow> committed H c"
  by (simp add: accepted_chunk_def committed_def commit_message_def response_ok_def)


end
