(* ===== verification/Conformance.thy ===== *)
theory Conformance
  imports Sender Receiver "HOL-Library.Sublist"
begin

text \<open>
  The two programs as endpoints of the protocol of theory \<open>Exchange\<close>. The locale says what an
  endpoint promises; \<^verbatim>\<open>SendFile\<close> and \<^verbatim>\<open>RecieveFile\<close> are its two instances, so what follows from the
  promise is proved once for both.
\<close>

section \<open>The contract of an endpoint\<close>

text \<open>What an endpoint has observed is one side's view of a conversation.\<close>

definition view_of :: "Role \<Rightarrow> message list \<Rightarrow> ghost \<Rightarrow> bool" where
  "view_of role cv g \<longleftrightarrow> spoken role cv = g_wr g \<and> concat (spoken (peer role) cv) = g_rd g"

lemma peer_other [simp]: "peer role \<noteq> role" "role \<noteq> peer role"
  by (cases role; simp)+

locale endpoint_contract =
  fixes H :: digest and role :: Role and p :: "run_result io"
  assumes speaks: "exec p (xs @ (QWrite b, r) # ys) = Some p' \<Longrightarrow> turn H role (observed xs) b"
    and finishes: "exec p es = Some (Ret (Returned s None)) \<Longrightarrow>
      \<exists>cv h ls. conversation H cv (Closed h ls) \<and> length ls = unat (h_Reps h) \<and> view_of role cv (observed es)"
begin

lemma says_next:
  assumes "exec p (xs @ (QWrite b, r) # ys) = Some p'"
  shows "\<exists>cv m st. conversation H (cv @ [m]) st \<and> speaker m = role \<and> encode m = b \<and>
    view_of role cv (observed xs) \<and> fair cv \<and> fair (cv @ [m])"
  using speaks [OF assms] unfolding turn_def view_of_def
  by (metis conversation_fair conversation_snocD)

lemma says_conversation:
  assumes "exec p es = Some p'"
  shows "\<exists>cv st. conversation H cv st \<and> fair cv \<and> spoken role cv = g_wr (observed es) \<and>
    prefix (concat (spoken (peer role) cv)) (g_rd (observed es))"
  using assms
proof (induction es arbitrary: p' rule: rev_induct)
  case Nil
  have "conversation H [] Opening" by (rule conversation.silence)
  then show ?case by (intro exI [of _ "[]"]) (auto simp: observed_def ghost_init_def fair_def)
next
  case (snoc e es)
  then obtain p1 where p1: "exec p es = Some p1"
    by (auto simp: exec_append split: Option.bind_splits)
  obtain q r where e: "e = (q, r)" by (cases e)
  show ?case
  proof (cases "\<exists>b. q = QWrite b")
    case True
    with e snoc.prems obtain b where e: "e = (QWrite b, r)" and "exec p (es @ [(QWrite b, r)]) = Some p'" by auto
    from says_next [OF this(2)] obtain cv m st where "conversation H (cv @ [m]) st" "speaker m = role" "encode m = b"
      "view_of role cv (observed es)" "fair (cv @ [m])" by blast
    then show ?thesis
      by (intro exI [of _ "cv @ [m]"] exI [of _ st]) (auto simp: e view_of_def observed_def)
  next
    case False
    with e have "g_wr (observed (es @ [e])) = g_wr (observed es)"
      and "prefix (g_rd (observed es)) (g_rd (observed (es @ [e])))"
      by (cases q; simp add: observed_def)+
    with snoc.IH [OF p1] show ?thesis
      by (metis prefix_order.trans)
  qed
qed

lemma completes:
  assumes "exec p es = Some (Ret (Returned s None))"
  shows "\<exists>cv h ls. conversation H cv (Closed h ls) \<and> view_of role cv (observed es) \<and>
    (\<forall>n\<in>{1, 2, 3, 4}. said n cv = unat (h_Reps h))"
proof -
  obtain cv h ls where cv: "conversation H cv (Closed h ls)" "length ls = unat (h_Reps h)" "view_of role cv (observed es)"
    using finishes [OF assms] by blast
  from conversation_tally [OF cv(1)] cv show ?thesis
    by (intro exI [of _ cv] exI [of _ h] exI [of _ ls]) (simp add: numeral_eq_Suc)
qed

end

section \<open>The two endpoints\<close>

lemma sender_completes:
  assumes "exec (SendFile H fuel path) es = Some (Ret (Returned s None))"
  shows "\<exists>cv h ls. conversation H cv (Closed h ls) \<and> length ls = unat (h_Reps h) \<and> view_of RoleSender cv (observed es)"
proof -
  let ?h = "session_header s"
  obtain cs where len: "length cs = unat (s_TotalChunks s)"
    and sealed: "\<forall>i<length cs. sealed_chunk H (s_FileID s) i (cs ! i)"
    and io: "if cs = [] then g_wr (observed es) = [HeaderBytes ?h] \<and> g_rd (observed es) = []
     else g_wr (observed es) = HeaderBytes ?h # concat (map chunk_msgs cs) @ [RootBytes (merkle_root H (map (GenerateLeaf H) cs))] \<and>
          g_rd (observed es) = exchanges (length cs) @ FinalAckBytes"
    using SendFile_history [OF assms] by blast
  from sealed have "in_order ?h cs" by (simp add: in_order_def sealed_chunk_def)
  from closed_conversation [OF this, of H] len io show ?thesis
    by (fastforce simp: view_of_def concat_request_msgs split: if_splits)
qed

lemma receiver_completes:
  assumes "exec (RecieveFile H fuel) es = Some (Ret (Returned s None))"
  shows "\<exists>cv h ls. conversation H cv (Closed h ls) \<and> length ls = unat (h_Reps h) \<and> view_of RoleReceiver cv (observed es)"
proof -
  obtain h cs where len: "length cs = unat (h_Reps h)"
    and accepted: "\<forall>i<length cs. accepted_chunk H (h_FileID h) i (cs ! i)"
    and rd: "g_rd (observed es) = HeaderBytes h @ chunk_stream cs @
      (if cs = [] then [] else RootBytes (merkle_root H (map (GenerateLeaf H) cs)))"
    and wr: "g_wr (observed es) = request_msgs (length cs) @ (if cs = [] then [] else [FinalAckBytes])"
    using RecieveFile_history [OF assms] by blast
  from closed_conversation [OF accepted_in_order [OF accepted] len, of H] len rd wr show ?thesis
    by (fastforce simp: view_of_def chunk_stream_def split: if_splits)
qed

interpretation send_side: endpoint_contract H RoleSender "SendFile H fuel path" for H fuel path
proof
  show "turn H RoleSender (observed xs) b" if "exec (SendFile H fuel path) (xs @ (QWrite b, r) # ys) = Some p'" for xs b r ys p'
    using wp_watch_contract [OF SendFile_wp that] by (simp add: sender_writes_def)
qed (rule sender_completes)

interpretation receive_side: endpoint_contract H RoleReceiver "RecieveFile H fuel" for H fuel
proof
  show "turn H RoleReceiver (observed xs) b" if "exec (RecieveFile H fuel) (xs @ (QWrite b, r) # ys) = Some p'" for xs b r ys p'
    using wp_watch_contract [OF RecieveFile_wp that] by (simp add: receiver_writes_def)
qed (rule receiver_completes)

text \<open>The program of a role.\<close>

fun endpoint :: "digest \<Rightarrow> nat \<Rightarrow> string \<Rightarrow> Role \<Rightarrow> run_result io" where
  "endpoint H fuel path RoleSender = SendFile H fuel path"
| "endpoint H fuel path RoleReceiver = RecieveFile H fuel"

text \<open>C6: refinement of the protocol. Whatever the environment does, each time \<^verbatim>\<open>SendFile\<close> or
  \<^verbatim>\<open>RecieveFile\<close> hands a message to the stream there is a conversation of the abstract protocol in which
  this message comes next and is this role's to say, in which everything the program wrote before is
  what its role said, message by message, and every byte it has read is what the peer said; and the
  conversation is fair before and after it: never more keys than tickets, tickets than responses,
  responses than requests, and never a second request before the key of the first.\<close>

theorem endpoints_follow_protocol:
  assumes "exec (endpoint H fuel path role) (xs @ (QWrite b, r) # ys) = Some p"
  shows "\<exists>cv m st. conversation H (cv @ [m]) st \<and> speaker m = role \<and> encode m = b \<and>
    spoken role cv = g_wr (observed xs) \<and> concat (spoken (peer role) cv) = g_rd (observed xs) \<and>
    fair cv \<and> fair (cv @ [m])"
  using assms send_side.says_next [of H fuel path xs b r ys p] receive_side.says_next [of H fuel xs b r ys p]
  by (cases role) (simp_all add: view_of_def)

text \<open>C15: the conversation at every moment. Cut an execution of \<^verbatim>\<open>SendFile\<close> or \<^verbatim>\<open>RecieveFile\<close> anywhere: by an
  error, a peer that stops answering, a dead process. The messages it has handed to the stream are
  what its role said in a fair conversation of the abstract protocol, and what the peer said in it are
  the first bytes the program has read. And when the program has returned without an error, what it
  wrote and read are the two halves of a conversation that has been closed: as many requests,
  responses, tickets and keys as the header announced chunks, then the root over their leaves and the
  acknowledgement (for an empty file the header alone).\<close>

theorem endpoints_conversation:
  assumes "exec (endpoint H fuel path role) es = Some p"
  shows "(\<exists>cv st. conversation H cv st \<and> fair cv \<and> spoken role cv = g_wr (observed es) \<and>
      prefix (concat (spoken (peer role) cv)) (g_rd (observed es))) \<and>
    (\<forall>s. p = Ret (Returned s None) \<longrightarrow>
      (\<exists>cv h ls. conversation H cv (Closed h ls) \<and>
        spoken role cv = g_wr (observed es) \<and> concat (spoken (peer role) cv) = g_rd (observed es) \<and>
        (\<forall>n\<in>{1, 2, 3, 4}. said n cv = unat (h_Reps h))))"
proof (cases role)
  case RoleSender
  with assms have run: "exec (SendFile H fuel path) es = Some p" by simp
  show ?thesis unfolding RoleSender
    using send_side.says_conversation [OF run] send_side.completes [OF run [THEN trans]] run
    by (auto simp: view_of_def)
next
  case RoleReceiver
  with assms have run: "exec (RecieveFile H fuel) es = Some p" by simp
  show ?thesis unfolding RoleReceiver
    using receive_side.says_conversation [OF run] receive_side.completes [OF run [THEN trans]] run
    by (auto simp: view_of_def)
qed

end
