(* ===== verification/Fail_Stop.thy ===== *)
theory Fail_Stop
  imports Controllers
begin

text \<open>
  Both sides stop at the first failure: when a call on the stream, the random source or the file
  fails, no step goes on. What is left to do is to close a file and to log, and the error that is
  logged and returned is the one of the call, wrapped.
\<close>

section \<open>Failures\<close>

text \<open>
  The failure an event reports, where the program looks at it: \<^verbatim>\<open>ReadAt\<close> at the end of the file is
  not a failure, and the results of \<^verbatim>\<open>MkdirAll\<close> and of the deferred \<^verbatim>\<open>Close\<close> are dropped.
\<close>

fun failure :: "event \<Rightarrow> go_error option" where
  "failure (QRead n, r) = r_err r"
| "failure (QWrite b, r) = r_err r"
| "failure (QRand n, r) = r_err r"
| "failure (QFCreate path, r) = r_err r"
| "failure (QFWrite path b, r) = r_err r"
| "failure (QFReadAt path n off, r) = (if r_err r = Some EOF then None else r_err r)"
| "failure _ = None"

text \<open>An error and the errors that were wrapped into it.\<close>

inductive stems_from :: "go_error \<Rightarrow> go_error \<Rightarrow> bool" where
  itself: "stems_from e e"
| wrapped: "AErr e' \<in> set args \<Longrightarrow> stems_from e' e \<Longrightarrow> stems_from (Errorf fmt args) e"

declare stems_from.itself [simp, intro]

lemma stems_from_wrapped [simp, intro]:
  "stems_from e' e \<Longrightarrow> stems_from (Errorf fmt [AErr e']) e"
  "stems_from e' e \<Longrightarrow> stems_from (Errorf fmt [a, AErr e']) e"
  by (auto intro: stems_from.wrapped)

fun closes_file :: "req \<Rightarrow> bool" where
  "closes_file (QFClose path) = True"
| "closes_file _ = False"

definition tidies :: "req \<Rightarrow> bool" where
  "tidies q \<longleftrightarrow> closes_file q \<or> is_output q"

lemma tidies_simps [simp]: "tidies (QFClose path)" "is_output q \<Longrightarrow> tidies q"
  by (simp_all add: tidies_def)

text \<open>\<open>winds_down P p\<close>: \<open>p\<close> only closes files and makes output, and returns a result that satisfies \<open>P\<close>.\<close>

primrec winds_down :: "('a \<Rightarrow> bool) \<Rightarrow> 'a io \<Rightarrow> bool" where
  "winds_down P (Ret x) = P x"
| "winds_down P (Halt h) = False"
| "winds_down P (Act q k) = (tidies q \<and> (\<forall>r. winds_down P (k r)))"

primrec fail_stop :: "(go_error \<Rightarrow> 'a \<Rightarrow> bool) \<Rightarrow> 'a io \<Rightarrow> bool" where
  "fail_stop P (Ret x) = True"
| "fail_stop P (Halt h) = True"
| "fail_stop P (Act q k) =
     (\<forall>r. (failure (q, r) = None \<longrightarrow> fail_stop P (k r)) \<and>
          (\<forall>e. failure (q, r) = Some e \<longrightarrow> winds_down (P e) (k r)))"

section \<open>Rules\<close>

lemma winds_down_bind: "winds_down P (io_bind p f) = winds_down (\<lambda>x. winds_down P (f x)) p"
  by (induction p) simp_all

lemma winds_down_mono: "winds_down P p \<Longrightarrow> (\<And>x. P x \<Longrightarrow> Q x) \<Longrightarrow> winds_down Q p"
  by (induction p) simp_all

lemma fail_stop_bind:
  assumes "fail_stop P p" and "\<And>e x. P e x \<Longrightarrow> winds_down (Q e) (f x)" and "\<And>x. fail_stop Q (f x)"
  shows "fail_stop Q (io_bind p f)"
  using assms(1)
proof (induction p)
  case (Act q k)
  then show ?case
    by (auto simp: winds_down_bind intro: winds_down_mono assms(2))
qed (simp_all add: assms(3))

text \<open>What a call that can fail promises: its own error, passed on.\<close>

fun passes_on :: "go_error \<Rightarrow> 'a go_result \<Rightarrow> bool" where
  "passes_on e (Inl e') = stems_from e' e"
| "passes_on e (Inr x) = False"

fun step_fails :: "go_error \<Rightarrow> Session \<times> TransferState go_result \<Rightarrow> bool" where
  "step_fails e (s, r) = passes_on e r"

lemma fail_stop_try:
  assumes "fail_stop passes_on p" and "\<And>e e'. stems_from e' e \<Longrightarrow> Q e (h e')" and "\<And>x. fail_stop Q (f x)"
  shows "fail_stop Q (io_try p h f)"
  unfolding io_try_def
proof (rule fail_stop_bind [OF assms(1)])
  show "passes_on e x \<Longrightarrow> winds_down (Q e) (case x of Inl e \<Rightarrow> Ret (h e) | Inr x \<Rightarrow> f x)" for e x
    using assms(2) by (cases x) auto
qed (simp add: assms(3) split: sum.split)

lemma fail_stop_calls [simp]:
  "fail_stop passes_on (ReadFull n)" "fail_stop passes_on (ConnWrite b)" "fail_stop passes_on (RandRead n)"
  "fail_stop passes_on (CreateFile path)" "fail_stop passes_on (FileWrite f b)" "fail_stop P (FileClose f)"
  "fail_stop P (MkdirAll path)"
  by (auto simp: io_prim_defs reply_bytes_def reply_unit_def split: option.split)

lemma winds_down_FileClose [simp]: "(\<And>r. P r) \<Longrightarrow> winds_down P (FileClose f)"
  by (simp add: FileClose_def split: option.split)

lemma fail_stop_print: "fail_stop P (f ()) \<Longrightarrow> fail_stop P (io_bind (Printf_nl fmt args) f)"
  by (simp add: Printf_nl_def)

lemma fail_stop_close [simp]: "fail_stop P (io_bind (FileClose f) (\<lambda>_. Ret x))"
  by (simp add: FileClose_def split: option.split)

lemma winds_down_exec:
  "winds_down P p \<Longrightarrow> exec p es = Some p' \<Longrightarrow> (\<forall>ev\<in>set es. tidies (fst ev)) \<and> winds_down P p'"
  by (induction p es rule: exec.induct) (auto split: io.splits if_splits)

lemma fail_stop_exec:
  assumes "fail_stop P p" and "exec p (xs @ (q, r) # ys) = Some p'" and "failure (q, r) = Some e"
  shows "(\<forall>ev\<in>set ys. tidies (fst ev)) \<and> winds_down (P e) p'"
  using assms
proof (induction xs arbitrary: p)
  case Nil
  then obtain k where "p = Act q k" and run: "exec (k r) ys = Some p'"
    by (auto split: io.splits if_splits)
  with Nil.prems have "winds_down (P e) (k r)" by simp
  from winds_down_exec [OF this run] show ?case .
next
  case (Cons x xs)
  then obtain q' k' where p: "p = Act q' k'" and step: "exec (k' (snd x)) (xs @ (q, r) # ys) = Some p'" and "fst x = q'"
    by (auto split: io.splits if_splits)
  show ?case
  proof (cases "failure (q', snd x)")
    case None
    with Cons.prems(1) p have "fail_stop P (k' (snd x))" by simp
    from Cons.IH [OF this step Cons.prems(3)] show ?thesis .
  next
    case (Some e')
    with Cons.prems(1) p have "winds_down (P e') (k' (snd x))" by simp
    from winds_down_exec [OF this step] have "tidies q" by simp
    with Cons.prems(3) show ?thesis by (cases q) (simp_all add: tidies_def)
  qed
qed

section \<open>The two sides\<close>

lemma fail_stop_readers [simp]:
  "fail_stop passes_on ReadHeader" "fail_stop passes_on ReadChunkRequest" "fail_stop passes_on (ReadChunkResponse fid)"
  "fail_stop passes_on ReadLotteryTicket" "fail_stop passes_on ReadKeyReveal" "fail_stop passes_on ReadRoot"
  "fail_stop passes_on ReadFinalAck"
  unfolding read_defs by (auto intro!: fail_stop_try simp: Let_def)

lemma fail_stop_ReadChunkPlaintext [simp]: "fail_stop passes_on (ReadChunkPlaintext f i n)"
  by (auto simp: ReadChunkPlaintext_def FileReadAt_def split: option.split)

lemma fail_stop_BuildAndEncryptChunk [simp]: "fail_stop passes_on (BuildAndEncryptChunk H fid i b)"
  unfolding BuildAndEncryptChunk_def EncryptChunk_def GenerateRandomKey_def Let_def
  by (auto intro!: fail_stop_try)

lemma fail_stop_DecryptAndCheck [simp]: "fail_stop P (DecryptAndCheck H c)"
  by (simp add: DecryptAndCheck_def Let_def split: option.split)

lemma sender_step_fail_stop: "senderSteps H st = Some step \<Longrightarrow> fail_stop step_fails (step s)"
  by (cases st)
    (auto simp: sender_step_defs send_defs Let_def root_of_built_tree intro!: fail_stop_try fail_stop_print
      split: option.split)

lemma verifyMerkle_body_fail_stop: "fail_stop step_fails (verifyMerkle_body H s)"
  by (auto simp: verifyMerkle_body_def send_defs root_of_built_tree intro!: fail_stop_try fail_stop_print)

lemma receiver_step_fail_stop: "receiverSteps H st = Some step \<Longrightarrow> fail_stop step_fails (step s)"
proof (cases "st = StateVerifyMerkle")
  case True
  assume "receiverSteps H st = Some step"
  with True show ?thesis
    by (auto simp: stepReceiverVerifyMerkle_def winds_down_bind
        intro!: fail_stop_bind [OF verifyMerkle_body_fail_stop])
next
  case False
  assume "receiverSteps H st = Some step"
  with False show ?thesis
    by (cases st)
      (auto simp: receiver_step_defs(1-7) send_defs Let_def
        intro!: fail_stop_try fail_stop_print fail_stop_bind [where P = "\<lambda>_ _. False"] split: option.split sum.split)
qed

text \<open>The error \<^verbatim>\<open>Run\<close> returns for a failed step.\<close>

definition run_stopped :: "go_error \<Rightarrow> run_result \<Rightarrow> bool" where
  "run_stopped e res \<longleftrightarrow> (\<exists>s err. res = Returned s (Some err) \<and> s_state s = StateError \<and> stems_from err e)"

lemma run_fail_stopped: "stems_from err e \<Longrightarrow> winds_down (run_stopped e) (run_fail s err)"
  by (simp add: run_stopped_def run_fail_eq Logf_def)

lemma run_fail_fail_stop: "fail_stop P (run_fail s err)"
  by (simp add: run_fail_eq Logf_def)

lemma run_next_stopped: "step_fails e x \<Longrightarrow> winds_down (run_stopped e) (run_next fuel steps st x)"
  by (cases x) (auto simp: run_next_def run_fail_stopped elim: passes_on.elims)

lemma Run_fail_stop:
  assumes "\<And>st step s. steps st = Some step \<Longrightarrow> fail_stop step_fails (step s)"
  shows "fail_stop run_stopped (Run fuel s steps)"
proof (induction fuel arbitrary: s)
  case (Suc fuel)
  have "fail_stop run_stopped (run_next fuel steps st x)" for st x
    by (auto simp: run_next_def Transition_def Logf_def run_fail_fail_stop Suc split: sum.split)
  then show ?case
    by (auto simp: Run_Suc run_fail_fail_stop run_next_stopped intro!: fail_stop_bind [OF assms] split: option.split)
qed simp

lemma RecieveFile_fail_stop: "fail_stop run_stopped (RecieveFile H fuel)"
  unfolding RecieveFile_def by (rule Run_fail_stop) (rule receiver_step_fail_stop)

lemma SendFile_fail_stop: "fail_stop run_stopped (SendFile H fuel path)"
proof -
  have "fail_stop run_stopped (Run fuel s (senderSteps H))" for s
    by (rule Run_fail_stop) (rule sender_step_fail_stop)
  then have "fail_stop run_stopped (io_bind (Run fuel s (senderSteps H)) (\<lambda>res. io_bind (FileClose (Some f)) (\<lambda>_. Ret res)))" for s f
    by (rule fail_stop_bind) (simp_all add: winds_down_bind)
  then show ?thesis
    unfolding SendFile_def generateFileID_def PrepareMetadata_def Let_def OpenFile_def FileStat_def TimeNow_def FileClose_def
    by (auto split: option.split)
qed

end
