(* ===== verification/Robustness.thy ===== *)
theory Robustness
  imports Conformance Fail_Stop
begin

text \<open>
  How the two sides behave when a transfer does not go well: they stop at the first failure, what is
  on the receiver's disk at any moment has been verified, and which side closes its file when.
\<close>

section \<open>Failures\<close>


section \<open>The receiver's disk\<close>

text \<open>
  What an unfinished execution has stored: nothing, or the plaintexts of accepted chunks whose messages
  are the first bytes it read.
\<close>

definition disk_verified :: "digest \<Rightarrow> ghost \<Rightarrow> bool" where
  "disk_verified H g \<longleftrightarrow> g_fw g = [] \<or>
     (\<exists>h cs. header_ok h \<and> (\<forall>i<length cs. accepted_chunk H (h_FileID h) i (cs ! i)) \<and>
        g_cr g = [output_path h] \<and> g_fw g = stored h cs \<and> prefix (HeaderBytes h @ chunk_stream cs) (g_rd g))"

lemma disk_verified_step:
  assumes "receiver_stores H g p b"
  shows "disk_verified H (g\<lparr>g_fw := g_fw g @ [(p, b)]\<rparr>)"
proof -
  from assms obtain h cs c where p: "g_cr g = [p]" "p = output_path h" and v: "verified_so_far H g h cs (ChunkResponseBytes c @ KeyRevealBytes (c_Index c) (c_Key c))"
    and c: "accepted_chunk H (h_FileID h) (length cs) c" "b = c_Plaintext c"
    unfolding receiver_stores_def by blast
  then have "\<forall>i<length (cs @ [c]). accepted_chunk H (h_FileID h) i ((cs @ [c]) ! i)"
    by (auto simp: verified_so_far_def nth_append less_Suc_eq)
  with v c p show ?thesis unfolding disk_verified_def
    by (intro disjI2 exI [of _ h] exI [of _ "cs @ [c]"]) (simp add: verified_so_far_def stored_def)
qed

lemma disk_verified_frame:
  assumes "disk_verified H g" and "\<And>p b. q \<noteq> QFWrite p b" and "\<And>p. q = QFCreate p \<Longrightarrow> g_cr g = []"
  shows "disk_verified H (observe g (q, r))"
proof -
  have fw: "g_fw (observe g (q, r)) = g_fw g" and rd: "prefix (g_rd g) (g_rd (observe g (q, r)))"
    using assms(2) by (cases q; simp)+
  have cr: "g_cr g \<noteq> [] \<Longrightarrow> g_cr (observe g (q, r)) = g_cr g" using assms(3) by (cases q) auto
  show ?thesis
  proof (cases "g_fw g = []")
    case False
    with assms(1) obtain h cs where "header_ok h" "\<forall>i<length cs. accepted_chunk H (h_FileID h) i (cs ! i)"
      "g_cr g = [output_path h]" "g_fw g = stored h cs" "prefix (HeaderBytes h @ chunk_stream cs) (g_rd g)"
      unfolding disk_verified_def by blast
    with fw rd cr show ?thesis unfolding disk_verified_def
      by (intro disjI2 exI [of _ h] exI [of _ cs]) (auto intro: prefix_order.trans)
  qed (simp add: disk_verified_def fw)
qed

text \<open>The contracts hold along an execution, so the disk is verified at every moment.\<close>

lemma RecieveFile_disk:
  assumes "exec (RecieveFile H fuel) es = Some p"
  shows "disk_verified H (observed es)"
  using assms
proof (induction es arbitrary: p rule: rev_induct)
  case Nil
  then show ?case by (simp add: disk_verified_def observed_def ghost_init_def)
next
  case (snoc e es)
  obtain q r where e: "e = (q, r)" by (cases e)
  have obs: "observed (es @ [e]) = observe (observed es) (q, r)" by (simp add: observed_def e)
  have ok: "watch_ok (receiver_writes H) (receiver_files H) (observed es) q"
    using wp_watch_contract [OF RecieveFile_wp, of H fuel es e "[]"] snoc.prems e by simp
  show ?case
  proof (cases "\<exists>p b. q = QFWrite p b")
    case True
    with ok obs show ?thesis by (auto simp: disk_verified_step)
  next
    case False
    from snoc.prems obtain p' where p': "exec (RecieveFile H fuel) es = Some p'"
      by (auto simp: exec_append split: Option.bind_splits)
    show ?thesis unfolding obs
      by (rule disk_verified_frame [OF snoc.IH [OF p']]) (use False ok in \<open>auto simp: receiver_creates_def\<close>)
  qed
qed

text \<open>C7: crash safety of the receiver. At any moment of any execution of \<^verbatim>\<open>RecieveFile\<close>, whatever the peer sends
  and however it ends, the blocks it has written so far went to the one file it created, under
  \<^verbatim>\<open>./received/\<close> with the name in the header, and are the plaintexts of chunks
  \<open>0, 1, ...\<close> in this order, each of which was opened with the revealed key and matches its commitment,
  and the bytes it has read begin with the header and exactly the messages of these chunks: no byte of
  the file is unverified, and none is missing or out of place.\<close>

theorem receiver_disk_verified:
  assumes "exec (RecieveFile H fuel) es = Some p"
  shows "g_fw (observed es) = [] \<or>
    (\<exists>h cs. header_ok h \<and> (\<forall>i<length cs. accepted_chunk H (h_FileID h) i (cs ! i)) \<and>
       g_cr (observed es) = [output_path h] \<and> g_fw (observed es) = stored h cs \<and>
       prefix (HeaderBytes h @ chunk_stream cs) (g_rd (observed es)))"
  using RecieveFile_disk [OF assms] by (simp add: disk_verified_def)

section \<open>File handles\<close>

fun opens_or_closes :: "req \<Rightarrow> bool" where
  "opens_or_closes (QFCreate path) = True"
| "opens_or_closes (QFClose path) = True"
| "opens_or_closes _ = False"

text \<open>Programs that create and close no file.\<close>

abbreviation calm :: "('a \<Rightarrow> bool) \<Rightarrow> 'a io \<Rightarrow> bool" where
  "calm \<equiv> avoids opens_or_closes"

abbreviation "anything \<equiv> watch (\<lambda>_ _. True) (\<lambda>_ _. True)"

lemma calm_wp:
  assumes "calm P p" and "\<And>x g'. P x \<Longrightarrow> g_cr g' = g_cr g \<Longrightarrow> g_cl g' = g_cl g \<Longrightarrow> Q x g'"
  shows "wph (\<lambda>_ _. True) anything p Q g"
proof (rule avoids_wp [OF assms(1), where I = "\<lambda>g'. g_cr g' = g_cr g \<and> g_cl g' = g_cl g"])
  show "\<exists>m'. anything m (q, r) = Some m' \<and> g_cr m' = g_cr g \<and> g_cl m' = g_cl g"
    if "g_cr m = g_cr g \<and> g_cl m = g_cl g" "\<not> opens_or_closes q" for q r m
    using that by (cases q) (auto simp: watch_def)
qed (use assms(2) in auto)

lemma sender_step_calm: "senderSteps H st = Some step \<Longrightarrow> calm (\<lambda>_. True) (step s)"
  by (cases st)
    (auto simp: sender_step_defs send_defs Let_def root_of_built_tree intro!: avoids_try avoids_then
      split: option.split)

lemma receiver_step_calm:
  assumes "receiverSteps H st = Some step" and "st \<notin> {StateIdle, StateReceiveHeader, StateVerifyMerkle}"
  shows "calm (\<lambda>(s', r). s_File s' = s_File s \<and> r \<notin> {Inr StateIdle, Inr StateReceiveHeader}) (step s)"
  using assms
  by (cases st)
    (auto simp: receiver_step_defs(1-7) send_defs Let_def AdvanceChunk_def intro!: avoids_try avoids_then
      split: option.split sum.split)

lemma sender_handle:
  "wph (\<lambda>_ _. True) anything (SendFile H fuel path) (\<lambda>_ g. g_cl g = [path]) ghost_init"
proof -
  have "calm (\<lambda>_. True) (Run fuel s (senderSteps H))" for s
    by (rule Run_avoids) (simp_all add: sender_step_calm)
  then have "wph (\<lambda>_ _. True) anything (io_bind (Run fuel s (senderSteps H)) (\<lambda>res. io_bind (FileClose (Some path)) (\<lambda>_. Ret res)))
      (\<lambda>_ g. g_cl g = [path]) ghost_init" for s
    unfolding wp_bind by (rule calm_wp) (simp add: ghost_init_def wp_FileClose)
  then show ?thesis
    unfolding SendFile_def generateFileID_def PrepareMetadata_def Let_def OpenFile_def FileStat_def TimeNow_def
    by (auto simp: io_bind_assoc watch_def split: option.split)
qed

text \<open>A receiver between its header and the Merkle check holds the file it created, open.\<close>

definition holds_file :: "Session \<Rightarrow> ghost \<Rightarrow> bool" where
  "holds_file s g \<longleftrightarrow> (\<exists>out. s_File s = Some out \<and> g_cr g = [out] \<and> g_cl g = [])"

definition handle_inv :: "Session \<Rightarrow> ghost \<Rightarrow> bool" where
  "handle_inv s g \<longleftrightarrow>
     (if s_state s \<in> {StateIdle, StateReceiveHeader} then g_cr g = [] \<and> g_cl g = []
      else s_state s = StateFinished \<or> holds_file s g)"

lemma receiver_step_handle:
  assumes "handle_inv s g" and "receiverSteps H (s_state s) = Some step"
  shows "wph (\<lambda>_ _. True) anything (step s)
    (\<lambda>(s', r) g'. case r of
       Inl e \<Rightarrow> s_state s \<in> {StateIdle, StateReceiveHeader, StateVerifyMerkle} \<or> holds_file s' g'
     | Inr st \<Rightarrow> handle_inv (s'\<lparr>s_state := st\<rparr>) g') g"
proof (cases "s_state s \<in> {StateIdle, StateReceiveHeader, StateVerifyMerkle}")
  case False
  have "holds_file s g" using False assms by (cases "s_state s") (auto simp: handle_inv_def)
  then show ?thesis
    by (intro calm_wp [OF receiver_step_calm [OF assms(2) False]])
      (auto simp: handle_inv_def holds_file_def split: sum.split)
next
  case True
  then consider "s_state s = StateIdle" | "s_state s = StateReceiveHeader" | "s_state s = StateVerifyMerkle" by blast
  then show ?thesis
  proof cases
    case 1
    with assms show ?thesis by (auto simp: stepReceiverIdle_def handle_inv_def)
  next
    case 2
    with assms show ?thesis
      by (auto simp: stepReceiverReceiveHeader_def wp_try wp_bind Let_def handle_inv_def holds_file_def
          intro!: calm_wp [of "\<lambda>_. True" ReadHeader] wp_MkdirAll wp_CreateFile wp_FileClose split: sum.split)
  next
    case 3
    have body: "calm (\<lambda>(s', r). s_File s' = s_File s \<and> (\<forall>st. r = Inr st \<longrightarrow> st = StateFinished)) (verifyMerkle_body H s)"
      by (auto simp: verifyMerkle_body_def send_defs root_of_built_tree intro!: avoids_try avoids_then)
    from 3 assms obtain out where "s_File s = Some out" by (auto simp: handle_inv_def holds_file_def)
    with 3 assms show ?thesis
      by (auto simp: stepReceiverVerifyMerkle_def wp_bind handle_inv_def intro!: calm_wp [OF body] wp_FileClose split: sum.split)
  qed
qed

text \<open>The error \<^verbatim>\<open>Run\<close> returns when the step of state \<open>st\<close> failed.\<close>

definition step_error :: "TransferState \<Rightarrow> go_error \<Rightarrow> go_error" where
  "step_error st e = Errorf ''step %s failed: %w'' [AStr (state_String st), AErr e]"

definition left_open :: "run_result \<Rightarrow> ghost \<Rightarrow> bool" where
  "left_open res g \<longleftrightarrow> (\<forall>s st e. res = Returned s (Some (step_error st e)) \<longrightarrow>
     st \<notin> {StateIdle, StateReceiveHeader, StateVerifyMerkle} \<longrightarrow> holds_file s g)"

lemma left_open_fail:
  "st \<in> {StateIdle, StateReceiveHeader, StateVerifyMerkle} \<or> holds_file s g \<Longrightarrow>
   wph X (watch cw cf) (run_fail s (step_error st e)) left_open g"
  by (auto simp: left_open_def run_fail_eq wp_bind step_error_def holds_file_def dest: state_String_inj)

lemma left_open_other:
  "(\<And>st e. err \<noteq> step_error st e) \<Longrightarrow> wph X (watch cw cf) (run_fail s err) left_open g"
  by (auto simp: left_open_def run_fail_eq wp_bind)

lemma run_next_left_open:
  assumes "case r of Inl e \<Rightarrow> st \<in> {StateIdle, StateReceiveHeader, StateVerifyMerkle} \<or> holds_file s g
      | Inr st' \<Rightarrow> handle_inv (s\<lparr>s_state := st'\<rparr>) g"
    and "\<And>s. handle_inv s g \<Longrightarrow> wph X (watch cw cf) (Run fuel s steps) left_open g"
  shows "wph X (watch cw cf) (run_next fuel steps st (s, r)) left_open g"
  using assms
  by (auto simp: run_next_def Transition_def wp_bind step_error_def [symmetric] left_open_fail
      intro!: left_open_other split: sum.splits) (simp add: step_error_def)

lemma receiver_run_handle:
  "handle_inv s g \<Longrightarrow> wph (\<lambda>_ _. True) anything (Run fuel s (receiverSteps H)) left_open g"
proof (induction fuel arbitrary: s g)
  case 0
  then show ?case by (simp add: left_open_def)
next
  case (Suc fuel)
  show ?case
  proof (cases "s_state s \<in> {StateFinished, StateError}")
    case True
    then show ?thesis by (auto simp: Run_Suc left_open_def step_error_def)
  next
    case False
    show ?thesis
    proof (cases "receiverSteps H (s_state s)")
      case None
      with False show ?thesis
        by (auto simp: Run_Suc step_error_def intro!: left_open_other)
    next
      case (Some step)
      have "wph (\<lambda>_ _. True) anything (step s)
          (\<lambda>x. wph (\<lambda>_ _. True) anything (run_next fuel (receiverSteps H) (s_state s) x) left_open) g"
        by (rule wp_mono [OF receiver_step_handle [OF Suc.prems Some]])
          (auto intro!: run_next_left_open Suc.IH split: prod.splits)
      with False Some show ?thesis by (simp add: Run_Suc wp_bind)
    qed
  qed
qed

lemma receiver_handle:
  "wph (\<lambda>_ _. True) anything (RecieveFile H fuel) left_open ghost_init"
  unfolding RecieveFile_def
  by (rule receiver_run_handle) (simp add: handle_inv_def NewSession_def ghost_init_def)

text \<open>C39: file handles. \<^verbatim>\<open>SendFile\<close> closes the file it opened exactly once, however it returns. \<^verbatim>\<open>RecieveFile\<close>
  closes the one file it created exactly once when it succeeds; but when it fails in any step between
  the header and the Merkle check (a lost connection, a wrong message, a chunk that does not verify, a
  full disk), the file it created stays open: only \<^verbatim>\<open>stepReceiverVerifyMerkle\<close> defers the \<^verbatim>\<open>Close\<close>.\<close>

theorem file_handles:
  assumes "exec (endpoint H fuel path role) es = Some (Ret (Returned s err))"
  shows "(role = RoleSender \<longrightarrow> g_cl (observed es) = [path]) \<and>
    (role = RoleReceiver \<and> err = None \<longrightarrow> (\<exists>out. g_cr (observed es) = [out] \<and> g_cl (observed es) = [out])) \<and>
    (\<forall>st e. role = RoleReceiver \<and> err = Some (Errorf ''step %s failed: %w'' [AStr (state_String st), AErr e]) \<and>
       st \<notin> {StateIdle, StateReceiveHeader, StateVerifyMerkle} \<longrightarrow>
       (\<exists>out. s_File s = Some out \<and> g_cr (observed es) = [out] \<and> g_cl (observed es) = []))"
proof (cases role)
  case RoleSender
  with wp_watch_result [OF sender_handle, of H fuel path es] assms show ?thesis by auto
next
  case RoleReceiver
  with assms have run: "exec (RecieveFile H fuel) es = Some (Ret (Returned s err))" by simp
  have "left_open (Returned s err) (observed es)" by (rule wp_watch_result [OF receiver_handle run])
  moreover have "err = None \<Longrightarrow> \<exists>out. g_cr (observed es) = [out] \<and> g_cl (observed es) = [out]"
    using RecieveFile_history [of H fuel es s] run by auto
  ultimately show ?thesis using RoleReceiver by (auto simp: left_open_def step_error_def holds_file_def)
qed

end
