(* ===== verification/Server_Client.thy ===== *)
theory Server_Client
  imports End_To_End
begin

text \<open>
  The two programs around the transfer: the client's request header and its dispatch on the method
  (\<^verbatim>\<open>src/Client/client.go\<close>), the server's stream handler (\<^verbatim>\<open>src/Server/server.go\<close>), and the splitting
  of the comma-separated \<^verbatim>\<open>RELAY_ADDRS\<close> both do. The lemmas connect the two sides: a \<^verbatim>\<open>GET\<close> brings
  the server's file to the client, a \<^verbatim>\<open>POST\<close> the client's file to the server.
\<close>

section \<open>Request header\<close>

text \<open>The buffer \<^verbatim>\<open>RequestFile\<close> builds; a method other than the two leaves the type out.\<close>

definition RequestBytes :: "string \<Rightarrow> string \<Rightarrow> bytes" where
  "RequestBytes path method =
     (let buf = [];
          buf = (if method = ''GET'' then buf @ PutUint32 0 else buf);
          buf = (if method = ''POST'' then buf @ PutUint32 1 else buf);
          buf = buf @ PutUint32 (word_of_nat (length path))
      in buf @ str_bytes path)"

definition RequestFile :: "string \<Rightarrow> string \<Rightarrow> unit io" where
  "RequestFile path method =
     io_bind (ConnWrite (RequestBytes path method)) (\<lambda>r. case r of
       Inl e \<Rightarrow> Halt (Fatal ''Couldnt write the whattodoheaderBuffer'' e)
     | Inr _ \<Rightarrow> Println [AStr ''Successfully sent the whattodoheader from client.go''])"

section \<open>The two ends of a stream\<close>

text \<open>What became of a stream. The functions return nothing; a failure only appears in the log.\<close>

datatype outcome =
    BadRequest string go_error
  | Sent run_result
  | Received run_result
  | UnknownCommand

definition close_after :: "outcome io \<Rightarrow> outcome io" where
  "close_after body = io_bind body (\<lambda>out. io_bind ConnClose (\<lambda>_. Ret out))"

definition bad_request :: "string \<Rightarrow> go_error \<Rightarrow> outcome io" where
  "bad_request what e =
     io_bind (Logln [AStr what, AErr e]) (\<lambda>_.
     io_bind ConnReset (\<lambda>_. Ret (BadRequest what e)))"

text \<open>\<^verbatim>\<open>if err := transfer(); err != nil { log.Println(what, err) }\<close>.\<close>

definition log_failure :: "string \<Rightarrow> run_result \<Rightarrow> unit io" where
  "log_failure what res =
     (case res of Returned s (Some err) \<Rightarrow> Logln [AStr what, AErr err] | _ \<Rightarrow> Ret ())"

definition send_over :: "digest \<Rightarrow> nat \<Rightarrow> string \<Rightarrow> outcome io" where
  "send_over H fuel path =
     io_bind (SendFile H fuel path) (\<lambda>res. io_bind (log_failure ''SendFile failed:'' res) (\<lambda>_. Ret (Sent res)))"

definition receive_over :: "digest \<Rightarrow> nat \<Rightarrow> outcome io" where
  "receive_over H fuel =
     io_bind (RecieveFile H fuel) (\<lambda>res. io_bind (log_failure ''RecieveFile failed:'' res) (\<lambda>_. Ret (Received res)))"

text \<open>\<open>remote\<close> is the identity of the peer at the other end, \<^verbatim>\<open>s.Conn().RemotePeer()\<close>.\<close>

definition HandleStream :: "peer_ID \<Rightarrow> digest \<Rightarrow> nat \<Rightarrow> outcome io" where
  "HandleStream remote H fuel = close_after (
     io_bind (Println [AStr ''Received a stream from peer:'', AStr remote]) (\<lambda>_.
     io_bind (ReadFull 4) (\<lambda>r. case r of
       Inl e \<Rightarrow> bad_request ''Couldn't read typ in whattodoheader:'' e
     | Inr buf \<Rightarrow>
         let typ = Uint32 buf in
         io_bind (ReadFull 4) (\<lambda>r. case r of
           Inl e \<Rightarrow> bad_request ''Couldn't read lengthOfPath in whattodoheader:'' e
         | Inr buf \<Rightarrow>
             let lengthOfPath = Uint32 buf in
             io_bind (ReadFull (unat lengthOfPath)) (\<lambda>r. case r of
               Inl e \<Rightarrow> bad_request ''Couldn't read path in whattodoheader:'' e
             | Inr pathBuf \<Rightarrow>
                 let path = bytes_str pathBuf in
                 io_bind (Printf_nl ''The typ is %d and path is %s : whattodoheader received correctly''
                   [AU32 typ, AStr path]) (\<lambda>_.
                 if typ = 0 then
                   io_bind (Println [AStr ''Stream handler: GET, starting SendFile'']) (\<lambda>_. send_over H fuel path)
                 else if typ = 1 then
                   io_bind (Println [AStr ''Stream handler: POST, starting RecieveFile'']) (\<lambda>_. receive_over H fuel)
                 else io_bind (Println [AStr ''Unknown command'']) (\<lambda>_. Ret UnknownCommand)))))))"

text \<open>The client's \<^verbatim>\<open>main\<close> from the opened stream on, with its deferred \<^verbatim>\<open>s.Close()\<close>.\<close>

definition client_stream :: "digest \<Rightarrow> nat \<Rightarrow> string \<Rightarrow> string \<Rightarrow> outcome io" where
  "client_stream H fuel method path = close_after (
     if method = ''POST'' then
       io_bind (Println [AStr ''Reached POST method in client.go'']) (\<lambda>_.
       io_bind (RequestFile path method) (\<lambda>_.
       io_bind (Println [AStr ''Completed the ReqFile func now starting SendFile in client.go'']) (\<lambda>_.
       send_over H fuel path)))
     else if method = ''GET'' then
       io_bind (Println [AStr ''Reached GET method in client.go'']) (\<lambda>_.
       io_bind (RequestFile path method) (\<lambda>_.
       io_bind (Println [AStr ''Completed the ReqFile func now starting RecieveFile in client.go'']) (\<lambda>_.
       receive_over H fuel)))
     else io_bind (Println [AStr ''Unknown command'']) (\<lambda>_. Ret UnknownCommand))"

section \<open>Splitting \<^verbatim>\<open>RELAY_ADDRS\<close>\<close>

text \<open>\<^verbatim>\<open>strings.Split(csv, ",")\<close>: one more part than there are commas.\<close>

fun split_commas :: "string \<Rightarrow> string list" where
  "split_commas [] = [[]]"
| "split_commas (c # cs) =
     (if c = CHR '','' then [] # split_commas cs
      else (case split_commas cs of [] \<Rightarrow> [[c]] | p # ps \<Rightarrow> (c # p) # ps))"

text \<open>
  \<^verbatim>\<open>strings.TrimSpace\<close>: the UTF-8 encodings of the code points of \<^verbatim>\<open>unicode.IsSpace\<close>, stripped from
  both ends as long as there is one.
\<close>

definition white_space :: "string list" where
  "white_space =
     map (\<lambda>n. [char_of (n :: nat)]) [9, 10, 11, 12, 13, 32] @
     map (\<lambda>ns. map char_of (ns :: nat list))
       ([[194, 133], [194, 160], [225, 154, 128]] @ map (\<lambda>n. [226, 128, n]) [128..<139] @
        [[226, 128, 168], [226, 128, 169], [226, 128, 175], [226, 129, 159], [227, 128, 128]])"

definition starts_with :: "string \<Rightarrow> string \<Rightarrow> bool" where
  "starts_with p s \<longleftrightarrow> take (length p) s = p"

function strip :: "string list \<Rightarrow> string \<Rightarrow> string" where
  "strip seqs s =
     (case find (\<lambda>p. p \<noteq> [] \<and> starts_with p s) seqs of
        None \<Rightarrow> s
      | Some p \<Rightarrow> strip seqs (drop (length p) s))"
  by pat_completeness auto
termination
  by (relation "measure (\<lambda>(seqs, s). length s)") (auto simp: find_Some_iff starts_with_def intro!: diff_less)

declare strip.simps [simp del]

definition TrimSpace :: "string \<Rightarrow> string" where
  "TrimSpace s = rev (strip (map rev white_space) (rev (strip white_space s)))"

fun keep_parts :: "string list \<Rightarrow> string list \<Rightarrow> string list" where
  "keep_parts [] out = out"
| "keep_parts (part # parts) out =
     (let part = TrimSpace part
      in keep_parts parts (if part \<noteq> [] then out @ [part] else out))"

definition splitNonEmpty :: "string \<Rightarrow> string list" where
  "splitNonEmpty csv = (if csv = [] then [] else keep_parts (split_commas csv) [])"

definition client_splitNonEmpty :: "string \<Rightarrow> string list" where
  "client_splitNonEmpty csv = (if csv = [] then [] else keep_parts (split_commas csv) [])"

section \<open>A request reaches its handler\<close>

text \<open>A first part that runs to its end is a run of the system too.\<close>

lemma run_left_part:
  assumes "drive p lm bl = (Ret x, lm', bl', out)"
  shows "duplex_step\<^sup>*\<^sup>* (system (io_bind p f) lm r rm br bl) (system (f x) lm' r rm (br @ out) bl')"
  using duplex_steps_context [OF run_left [OF assms, where r = r and rm = rm and br = br], where f = f and g = Ret]
  by (simp add: in_context_def)

lemma run_right_part:
  assumes "drive p rm br = (Ret x, rm', br', out)"
  shows "duplex_step\<^sup>*\<^sup>* (system l lm (io_bind p f) rm br bl) (system l lm (f x) rm' br' (bl @ out))"
  using duplex_steps_context [OF run_right [OF assms, where l = l and lm = lm and bl = bl], where g = f and f = Ret]
  by (simp add: in_context_def)

text \<open>The transfers with what follows them.\<close>

definition after_send :: "run_result \<Rightarrow> outcome io" where
  "after_send res = io_bind (log_failure ''SendFile failed:'' res) (\<lambda>_. io_bind ConnClose (\<lambda>_. Ret (Sent res)))"

definition after_receive :: "run_result \<Rightarrow> outcome io" where
  "after_receive res = io_bind (log_failure ''RecieveFile failed:'' res) (\<lambda>_. io_bind ConnClose (\<lambda>_. Ret (Received res)))"

lemma close_after_transfer:
  "close_after (send_over H fuel path) = io_bind (SendFile H fuel path) after_send"
  "close_after (receive_over H fuel) = io_bind (RecieveFile H fuel) after_receive"
  by (simp_all add: close_after_def send_over_def receive_over_def after_send_def [abs_def]
      after_receive_def [abs_def] io_bind_assoc)

lemma feed_bind_ReadFull:
  "n \<le> length b \<Longrightarrow> feed (io_bind (ReadFull n) f) b = feed (f (Inr (take n b))) (drop n b)"
  by (simp add: feed_bind feed_ReadFull)

text \<open>The handler in two parts: the request, and what is done about it.\<close>

definition read_request :: "peer_ID \<Rightarrow> ((string \<times> go_error) + (u32 \<times> string)) io" where
  "read_request remote =
     io_bind (Println [AStr ''Received a stream from peer:'', AStr remote]) (\<lambda>_.
     io_bind (ReadFull 4) (\<lambda>r. case r of
       Inl e \<Rightarrow> Ret (Inl (''Couldn't read typ in whattodoheader:'', e))
     | Inr buf \<Rightarrow> io_bind (ReadFull 4) (\<lambda>r. case r of
         Inl e \<Rightarrow> Ret (Inl (''Couldn't read lengthOfPath in whattodoheader:'', e))
       | Inr buf' \<Rightarrow> io_bind (ReadFull (unat (Uint32 buf'))) (\<lambda>r. case r of
           Inl e \<Rightarrow> Ret (Inl (''Couldn't read path in whattodoheader:'', e))
         | Inr pathBuf \<Rightarrow>
             io_bind (Printf_nl ''The typ is %d and path is %s : whattodoheader received correctly''
               [AU32 (Uint32 buf), AStr (bytes_str pathBuf)]) (\<lambda>_.
             Ret (Inr (Uint32 buf, bytes_str pathBuf)))))))"

definition answer_request :: "digest \<Rightarrow> nat \<Rightarrow> (string \<times> go_error) + (u32 \<times> string) \<Rightarrow> outcome io" where
  "answer_request H fuel x =
     close_after (case x of
       Inl (what, e) \<Rightarrow> bad_request what e
     | Inr (typ, path) \<Rightarrow>
         if typ = 0 then
           io_bind (Println [AStr ''Stream handler: GET, starting SendFile'']) (\<lambda>_. send_over H fuel path)
         else if typ = 1 then
           io_bind (Println [AStr ''Stream handler: POST, starting RecieveFile'']) (\<lambda>_. receive_over H fuel)
         else io_bind (Println [AStr ''Unknown command'']) (\<lambda>_. Ret UnknownCommand))"

lemma io_bind_case_sum:
  "io_bind (case r of Inl e \<Rightarrow> A e | Inr x \<Rightarrow> B x) f = (case r of Inl e \<Rightarrow> io_bind (A e) f | Inr x \<Rightarrow> io_bind (B x) f)"
  by (simp split: sum.split)

lemma HandleStream_parts: "HandleStream remote H fuel = io_bind (read_request remote) (answer_request H fuel)"
  unfolding HandleStream_def read_request_def answer_request_def [abs_def] close_after_def Let_def
  by (simp add: io_bind_assoc io_bind_case_sum cong: sum.case_cong)

lemma feed_first: "feed p b = (Ret x, r) \<Longrightarrow> feed (io_bind p f) b = feed (f x) r"
  by (simp add: feed_bind)

lemma feed_read_request:
  assumes "length path < 2 ^ 32"
  shows "feed (read_request remote) (PutUint32 typ @ PutUint32 (word_of_nat (length path)) @ str_bytes path @ rest) =
    (Ret (Inr (typ, path)), rest)"
proof -
  have "unat (word_of_nat (length path) :: u32) = length path"
    using assms by (rule unat_of_nat_u32)
  then show ?thesis by (simp add: read_request_def feed_bind_ReadFull feed_output)
qed

lemma feed_HandleStream:
  assumes "length path < 2 ^ 32"
  shows "feed (HandleStream remote H fuel) (PutUint32 typ @ PutUint32 (word_of_nat (length path)) @ str_bytes path @ rest) =
    feed (if typ = 0 then close_after (send_over H fuel path)
          else if typ = 1 then close_after (receive_over H fuel)
          else close_after (Ret UnknownCommand)) rest"
  by (simp add: HandleStream_parts feed_first [OF feed_read_request [OF assms]] answer_request_def close_after_def
      io_bind_assoc feed_output)

lemma RequestBytes_simps:
  "RequestBytes path ''GET'' = PutUint32 0 @ PutUint32 (word_of_nat (length path)) @ str_bytes path"
  "RequestBytes path ''POST'' = PutUint32 1 @ PutUint32 (word_of_nat (length path)) @ str_bytes path"
  by (simp_all add: RequestBytes_def)

text \<open>C22: the request header round trip. What the client's \<^verbatim>\<open>RequestFile\<close> writes for a \<^verbatim>\<open>GET\<close> makes the
  server's handler call \<^verbatim>\<open>SendFile\<close> with exactly the client's path, what it writes for a \<^verbatim>\<open>POST\<close> makes
  it call \<^verbatim>\<open>RecieveFile\<close>; in both cases the transfer gets the stream right after the header, its error is logged
  and the stream closed, and any other type only closes the stream.\<close>

theorem request_reaches_handler:
  assumes "length path < 2 ^ 32" and "typ \<noteq> 0" and "typ \<noteq> 1"
  shows "feed (HandleStream remote H fuel) (RequestBytes path ''GET'' @ rest) =
      feed (io_bind (SendFile H fuel path) (\<lambda>res. io_bind (log_failure ''SendFile failed:'' res) (\<lambda>_.
        io_bind ConnClose (\<lambda>_. Ret (Sent res))))) rest \<and>
    feed (HandleStream remote H fuel) (RequestBytes path ''POST'' @ rest) =
      feed (io_bind (RecieveFile H fuel) (\<lambda>res. io_bind (log_failure ''RecieveFile failed:'' res) (\<lambda>_.
        io_bind ConnClose (\<lambda>_. Ret (Received res))))) rest \<and>
    feed (HandleStream remote H fuel) (PutUint32 typ @ PutUint32 (word_of_nat (length path)) @ str_bytes path @ rest) =
      (io_bind ConnClose (\<lambda>_. Ret UnknownCommand), rest)"
  using assms feed_HandleStream [OF assms(1), of remote H fuel]
  by (simp add: RequestBytes_simps close_after_transfer after_send_def [abs_def] after_receive_def [abs_def])
    (simp add: close_after_def ConnClose_def)

text \<open>A read that waits for more than has arrived.\<close>

lemma feed_wait:
  "length b < n \<Longrightarrow> \<exists>k. feed (io_bind (ReadFull n) f) b = (Act (QRead n) k, b)"
  "length b < n \<Longrightarrow> \<exists>k. feed (io_try (ReadFull n) h g) b = (Act (QRead n) k, b)"
  by (auto simp: ReadFull_def io_try_def)

text \<open>C40: the peer chooses how much is allocated. After the eight bytes of a request that announce a path of \<open>n\<close> bytes,
  the stream handler asks for all \<open>n\<close> bytes in one read, into a buffer of that size, before any of them
  has arrived; so does a receiver after the length of the name in a header and after the length of the
  ciphertext in a chunk response. This holds for every \<open>n\<close> up to \<open>2 ^ 32 - 1\<close>: no length is checked against
  the chunk size or another limit.\<close>

theorem peer_chooses_buffer:
  assumes "0 < n" and "n < 2 ^ 32" and "length fileID = HashSize"
  shows "(\<exists>k. feed (HandleStream remote H fuel) (PutUint32 typ @ PutUint32 (word_of_nat n)) = (Act (QRead n) k, [])) \<and>
    (\<exists>k. feed ReadHeader ([msgHeader] @ PutUint32 reps @ fileID @ PutUint32 (word_of_nat n)) = (Act (QRead n) k, [])) \<and>
    (\<exists>k. feed (ReadChunkResponse fileID) ([msgChunkResponse] @ PutUint32 i @ PutUint32 (word_of_nat n)) =
      (Act (QRead n) k, []))"
  using assms
  by (simp add: unat_of_nat_u32 HandleStream_def close_after_def io_bind_assoc feed_bind_ReadFull Let_def feed_wait feed_output
      ReadHeader_def ReadChunkResponse_def feed_try [OF feed_readSentinel] feed_try_ReadFull)

section \<open>Both ends together\<close>

lemma drive_after:
  "drive (after_send res) m b = (Ret (Sent res), m, b, [])"
  "drive (after_receive res) m b = (Ret (Received res), m, b, [])"
  by (simp_all add: after_send_def after_receive_def log_failure_def drive_bind io_simps
      split: run_result.split option.split)

text \<open>From the moment the request has been understood.\<close>

lemma transfer_and_close:
  assumes "duplex_step\<^sup>*\<^sup>* (system l sm r rm [] []) (system (Ret x) sm' (Ret y) rm' [] [])"
  shows "duplex_step\<^sup>*\<^sup>* (system (io_bind l after_send) sm (io_bind r after_receive) rm [] [])
    (system (Ret (Sent x)) sm' (Ret (Received y)) rm' [] [])"
proof -
  note 1 = duplex_steps_context [OF assms, where f = after_send and g = after_receive]
  note 2 = run_left [OF drive_after(1), where br = "[]", unfolded append_Nil]
  note 3 = run_right [OF drive_after(2), where bl = "[]", unfolded append_Nil]
  show ?thesis
    using rtranclp_trans [OF 1 [unfolded in_context_def, simplified] rtranclp_trans [OF 2 3]] by simp
qed

text \<open>The client sends its request, the handler reads it.\<close>

lemma drive_RequestFile: "drive (RequestFile path method) m b = (Ret (), m, b, RequestBytes path method)"
  by (simp add: RequestFile_def drive_bind io_simps)

definition ask :: "string \<Rightarrow> string \<Rightarrow> string \<Rightarrow> string \<Rightarrow> unit io" where
  "ask reached completed path method =
     io_bind (Println [AStr reached]) (\<lambda>_. io_bind (RequestFile path method) (\<lambda>_. Println [AStr completed]))"

lemma drive_ask: "drive (ask reached completed path method) m b = (Ret (), m, b, RequestBytes path method)"
  by (simp add: ask_def drive_bind io_simps drive_RequestFile)

lemma client_stream_parts:
  "\<exists>reached completed. client_stream H fuel ''POST'' path =
     io_bind (ask reached completed path ''POST'') (\<lambda>_. io_bind (SendFile H fuel path) after_send)"
  "\<exists>reached completed. client_stream H fuel ''GET'' path =
     io_bind (ask reached completed path ''GET'') (\<lambda>_. io_bind (RecieveFile H fuel) after_receive)"
  unfolding close_after_transfer [symmetric]
  by (auto simp: client_stream_def ask_def close_after_def io_bind_assoc)

lemma drive_read_request:
  assumes "length path < 2 ^ 32"
  shows "drive (read_request remote) m (RequestBytes path ''GET'') = (Ret (Inr (0, path)), m, [], [])"
    and "drive (read_request remote) m (RequestBytes path ''POST'') = (Ret (Inr (1, path)), m, [], [])"
  using drive_feed [OF feed_read_request [OF assms, where rest = "[]"]]
  by (simp_all add: RequestBytes_simps)

lemma answer_request_parts:
  "\<exists>line. answer_request H fuel (Inr (0, path)) =
     io_bind (Println line) (\<lambda>_. io_bind (SendFile H fuel path) after_send)"
  "\<exists>line. answer_request H fuel (Inr (1, path)) =
     io_bind (Println line) (\<lambda>_. io_bind (RecieveFile H fuel) after_receive)"
  unfolding close_after_transfer [symmetric]
  by (auto simp: answer_request_def close_after_def io_bind_assoc)

lemma drive_Println: "drive (Println line) m b = (Ret (), m, b, [])"
  by (simp add: io_simps)

lemma request_GET:
  assumes "length path < 2 ^ 32"
  shows "duplex_step\<^sup>*\<^sup>* (system (HandleStream remote H f) sm (client_stream H g ''GET'' path) rm [] [])
    (system (io_bind (SendFile H f path) after_send) sm (io_bind (RecieveFile H g) after_receive) rm [] [])"
proof -
  obtain reached completed where client: "client_stream H g ''GET'' path =
      io_bind (ask reached completed path ''GET'') (\<lambda>_. io_bind (RecieveFile H g) after_receive)"
    using client_stream_parts(2) by blast
  obtain line where server: "answer_request H f (Inr (0, path)) =
      io_bind (Println line) (\<lambda>_. io_bind (SendFile H f path) after_send)"
    using answer_request_parts(1) by blast
  note 1 = run_right_part [OF drive_ask, where bl = "[]", unfolded append_Nil]
  note 2 = run_left_part [OF drive_read_request(1) [OF assms], where br = "[]", unfolded append_Nil]
  note 3 = run_left_part [OF drive_Println, where br = "[]", unfolded append_Nil]
  show ?thesis
    unfolding HandleStream_parts client
    by (rule rtranclp_trans [OF 1 rtranclp_trans [OF 2]]) (unfold server, rule 3)
qed

lemma request_POST:
  assumes "length path < 2 ^ 32"
  shows "duplex_step\<^sup>*\<^sup>* (system (client_stream H f ''POST'' path) sm (HandleStream remote H g) rm [] [])
    (system (io_bind (SendFile H f path) after_send) sm (io_bind (RecieveFile H g) after_receive) rm [] [])"
proof -
  obtain reached completed where client: "client_stream H f ''POST'' path =
      io_bind (ask reached completed path ''POST'') (\<lambda>_. io_bind (SendFile H f path) after_send)"
    using client_stream_parts(1) by blast
  obtain line where server: "answer_request H g (Inr (1, path)) =
      io_bind (Println line) (\<lambda>_. io_bind (RecieveFile H g) after_receive)"
    using answer_request_parts(2) by blast
  note 1 = run_left_part [OF drive_ask, where br = "[]", unfolded append_Nil]
  note 2 = run_right_part [OF drive_read_request(2) [OF assms], where bl = "[]", unfolded append_Nil]
  note 3 = run_right_part [OF drive_Println, where bl = "[]", unfolded append_Nil]
  show ?thesis
    unfolding HandleStream_parts client
    by (rule rtranclp_trans [OF 1 rtranclp_trans [OF 2]]) (unfold server, rule 3)
qed

text \<open>
  Every run of the system \<open>a\<close> ends, all after the same number of steps and in the same state, and
  that state satisfies \<open>P\<close>.
\<close>

definition settles :: "('a, 'b) duplex \<Rightarrow> (('a, 'b) duplex \<Rightarrow> bool) \<Rightarrow> bool" where
  "settles a P \<longleftrightarrow>
     (\<exists>N d. P d \<and> (\<forall>k d'. (duplex_step ^^ k) a d' \<longrightarrow> k \<le> N \<and> (duplex_step ^^ (N - k)) d' d))"

lemma settlesI:
  assumes "duplex_step\<^sup>*\<^sup>* a (system (Ret x) lm (Ret y) rm br bl)" and "P (system (Ret x) lm (Ret y) rm br bl)"
  shows "settles a P"
  using run_decides [OF assms(1) duplex.select_convs(1,3)] assms(2) unfolding settles_def by blast

lemma length_base_name: "length (base_name path) \<le> length path"
proof -
  have "length (base_name path) \<le> length (dropWhile (\<lambda>c. c = CHR ''/'') (rev path))"
    by (simp add: base_name_def length_takeWhile_le)
  also have "\<dots> \<le> length (rev path)" by (rule length_dropWhile_le)
  finally show ?thesis by simp
qed

text \<open>A finished exchange: both ends report success and the receiving machine has the file.\<close>

definition file_copied ::
  "machine \<Rightarrow> machine \<Rightarrow> string \<Rightarrow> bytes \<Rightarrow> (outcome, outcome) duplex \<Rightarrow> bool" where
  "file_copied sm rm path content d \<longleftrightarrow>
     (\<exists>s. left d = Ret (Sent (Returned s None)) \<and> s_state s = StateFinished) \<and>
     (\<exists>s. right d = Ret (Received (Returned s None)) \<and> s_state s = StateFinished) \<and>
     m_files (right_machine d) = (m_files rm)(''./received/'' @ base_name path \<mapsto> content) \<and>
     m_files (left_machine d) = m_files sm \<and> to_right d = [] \<and> to_left d = []"

lemma request_run:
  assumes len: "\<And>x. length (H x) = HashSize" and here: "m_files sm path = Some content"
    and size: "length content \<le> ChunkSize * (2 ^ 32 - 1)" and path: "length path < 2 ^ 32"
    and fuel: "4 * chunk_count (length content) + 4 \<le> f" "5 * chunk_count (length content) + 4 \<le> g"
    and start: "duplex_step\<^sup>*\<^sup>* a (system (io_bind (SendFile H f path) after_send) sm
      (io_bind (RecieveFile H g) after_receive) rm [] [])"
  shows "\<exists>x y sm' rm'. duplex_step\<^sup>*\<^sup>* a (system (Ret x) sm' (Ret y) rm' [] []) \<and>
    file_copied sm rm path content (system (Ret x) sm' (Ret y) rm' [] [])"
proof -
  have "length (base_name path) < 2 ^ 32" using length_base_name [of path] path by simp
  then obtain sL sR sm' where run: "duplex_step\<^sup>*\<^sup>* (system (SendFile H f path) sm (RecieveFile H g) rm [] [])
      (system (Ret (Returned sL None)) sm' (Ret (Returned sR None))
        (rm\<lparr>m_files := (m_files rm)(out_path path \<mapsto> content)\<rparr>) [] [])"
    and fin: "s_state sL = StateFinished" "s_state sR = StateFinished" "m_files sm' = m_files sm"
    using transfer_run [where H = H, OF len here size _ fuel, where rm = rm] by blast
  from rtranclp_trans [OF start transfer_and_close [OF run]] fin show ?thesis
    unfolding file_copied_def by fastforce
qed

lemma request_settles:
  assumes "\<And>x. length (H x) = HashSize" and "m_files sm path = Some content"
    and "length content \<le> ChunkSize * (2 ^ 32 - 1)" and "length path < 2 ^ 32"
    and "4 * chunk_count (length content) + 4 \<le> f" "5 * chunk_count (length content) + 4 \<le> g"
    and "duplex_step\<^sup>*\<^sup>* a (system (io_bind (SendFile H f path) after_send) sm
      (io_bind (RecieveFile H g) after_receive) rm [] [])"
  shows "settles a (file_copied sm rm path content)"
  using request_run [where H = H, OF assms] settlesI by metis

text \<open>C9: a \<^verbatim>\<open>GET\<close> works. A client that runs \<^verbatim>\<open>GET path\<close> against a server that has the file: whatever
  the interleaving, the exchange ends, both ends finish without an error, and the client has the
  server's file under \<^verbatim>\<open>./received/\<close> with the last element of the path as its name, all its other
  files and the server's files unchanged.\<close>

theorem GET_delivers:
  assumes "\<And>x. length (H x) = HashSize" and "m_files server path = Some content"
    and "length content \<le> ChunkSize * (2 ^ 32 - 1)" and "length path < 2 ^ 32"
    and "4 * chunk_count (length content) + 4 \<le> f" and "5 * chunk_count (length content) + 4 \<le> g"
  shows "settles (system (HandleStream remote H f) server (client_stream H g ''GET'' path) client [] [])
    (file_copied server client path content)"
  by (rule request_settles [where H = H, OF assms request_GET [OF assms(4)]])

text \<open>C10: a \<^verbatim>\<open>POST\<close> works. A client that runs \<^verbatim>\<open>POST path\<close> with a file it has: whatever the
  interleaving, the exchange ends, both ends finish without an error, and the server has the
  client's file under \<^verbatim>\<open>./received/\<close>.\<close>

theorem POST_delivers:
  assumes "\<And>x. length (H x) = HashSize" and "m_files client path = Some content"
    and "length content \<le> ChunkSize * (2 ^ 32 - 1)" and "length path < 2 ^ 32"
    and "4 * chunk_count (length content) + 4 \<le> f" and "5 * chunk_count (length content) + 4 \<le> g"
  shows "settles (system (client_stream H f ''POST'' path) client (HandleStream remote H g) server [] [])
    (file_copied client server path content)"
  by (rule request_settles [where H = H, OF assms request_POST [OF assms(4)]])

text \<open>C38: a request can stop the server. When the path of a \<^verbatim>\<open>GET\<close> names a file the server cannot
  open, the handler does not end the stream but the whole process: \<^verbatim>\<open>SendFile\<close> calls
  \<^verbatim>\<open>log.Fatal\<close>.\<close>

theorem GET_missing_file_stops_server:
  assumes "path \<noteq> []" and "length path < 2 ^ 32"
  shows "exec (HandleStream remote H fuel)
      [(QPrintln [AStr ''Received a stream from peer:'', AStr remote], r1),
       (QRead 4, Reply None (PutUint32 0) 0), (QRead 4, Reply None (PutUint32 (word_of_nat (length path))) 0),
       (QRead (length path), Reply None (str_bytes path) 0),
       (QPrintf (''The typ is %d and path is %s : whattodoheader received correctly'' @ [CHR 0x0A]) [AU32 0, AStr path], r2),
       (QPrintln [AStr ''Stream handler: GET, starting SendFile''], r3),
       (QFOpen path, Reply (Some e) [] 0)] =
    Some (Halt (Fatal ''Error reading the file:'' e))"
proof -
  have "unat (word_of_nat (length path) :: u32) = length path"
    using assms(2) by (rule unat_of_nat_u32)
  with assms(1) show ?thesis
    by (simp add: HandleStream_def close_after_def ReadFull_def reply_bytes_def Let_def output_defs
        send_over_def SendFile_def OpenFile_def)
qed

section \<open>The parts of \<^verbatim>\<open>RELAY_ADDRS\<close>\<close>

lemma strip_no_prefix: "find (\<lambda>p. p \<noteq> [] \<and> starts_with p (strip seqs s)) seqs = None"
proof (induction seqs s rule: strip.induct)
  case (1 seqs s)
  then show ?case by (subst (1) strip.simps) (auto split: option.split simp: strip.simps)
qed

lemma starts_with_append: "starts_with p a \<Longrightarrow> starts_with p (a @ b)"
proof -
  assume "starts_with p a"
  then have p: "take (length p) a = p" by (simp add: starts_with_def)
  then have "length p \<le> length a" by (metis length_take min.absorb_iff2 min.commute)
  with p show ?thesis by (simp add: starts_with_def)
qed

lemma strip_id: "find (\<lambda>p. p \<noteq> [] \<and> starts_with p s) seqs = None \<Longrightarrow> strip seqs s = s"
  by (subst strip.simps) simp

lemma strip_suffix: "\<exists>xs. s = xs @ strip seqs s"
proof (induction seqs s rule: strip.induct)
  case (1 seqs s)
  show ?case
  proof (cases "find (\<lambda>p. p \<noteq> [] \<and> starts_with p s) seqs")
    case None
    then show ?thesis by (simp add: strip_id)
  next
    case (Some p)
    then obtain xs where "drop (length p) s = xs @ strip seqs (drop (length p) s)" using 1 by blast
    then have "s = (take (length p) s @ xs) @ strip seqs (drop (length p) s)"
      by (metis append.assoc append_take_drop_id)
    moreover have "strip seqs s = strip seqs (drop (length p) s)" by (subst strip.simps) (simp add: Some)
    ultimately show ?thesis by metis
  qed
qed

lemma TrimSpace_idem: "TrimSpace (TrimSpace s) = TrimSpace s"
proof -
  let ?l = "strip white_space s"
  let ?r = "strip (map rev white_space) (rev ?l)"
  obtain xs where "rev ?l = xs @ ?r" using strip_suffix by blast
  then have l: "?l = rev ?r @ rev xs" by (metis rev_append rev_rev_ident)
  have "find (\<lambda>p. p \<noteq> [] \<and> starts_with p (rev ?r)) white_space = None"
    using strip_no_prefix [of white_space s] starts_with_append [of _ "rev ?r" "rev xs"]
    unfolding l [symmetric] find_None_iff by blast
  then have "strip white_space (rev ?r) = rev ?r" by (rule strip_id)
  moreover have "strip (map rev white_space) ?r = ?r"
    by (rule strip_id) (rule strip_no_prefix)
  ultimately show ?thesis by (simp add: TrimSpace_def)
qed

lemma keep_parts_eq: "keep_parts parts out = out @ filter (\<lambda>p. p \<noteq> []) (map TrimSpace parts)"
  by (induction parts out rule: keep_parts.induct) (simp_all add: Let_def)

lemma TrimSpace_Nil [simp]: "TrimSpace [] = []"
  by (simp add: TrimSpace_def strip_id find_None_iff starts_with_def)

lemma splitNonEmpty_eq: "splitNonEmpty csv = filter (\<lambda>p. p \<noteq> []) (map TrimSpace (split_commas csv))"
  by (simp add: splitNonEmpty_def keep_parts_eq)

lemma split_commas_no_comma: "p \<in> set (split_commas csv) \<Longrightarrow> CHR '','' \<notin> set p"
  by (induction csv arbitrary: p rule: split_commas.induct) (auto split: if_splits list.splits)

lemma set_TrimSpace: "set (TrimSpace s) \<subseteq> set s"
proof -
  obtain xs where "s = xs @ strip white_space s" using strip_suffix by blast
  then have "set (strip white_space s) \<subseteq> set s" by (metis Un_iff set_append subsetI)
  moreover obtain ys where "rev (strip white_space s) = ys @ strip (map rev white_space) (rev (strip white_space s))"
    using strip_suffix by blast
  then have "set (TrimSpace s) \<subseteq> set (strip white_space s)"
    unfolding TrimSpace_def by (metis Un_iff set_append set_rev subsetI)
  ultimately show ?thesis by blast
qed

fun join_commas :: "string list \<Rightarrow> string" where
  "join_commas [] = []"
| "join_commas [p] = p"
| "join_commas (p # q # ps) = p @ CHR '','' # join_commas (q # ps)"

definition clean_entry :: "string \<Rightarrow> bool" where
  "clean_entry p \<longleftrightarrow> p \<noteq> [] \<and> CHR '','' \<notin> set p \<and> TrimSpace p = p"

text \<open>Every text without a comma that starts and ends with a visible ASCII character is such an entry.\<close>

definition visible :: "char \<Rightarrow> bool" where
  "visible c \<longleftrightarrow> (of_char c :: nat) \<in> {33..126}"

lemma white_space_invisible: "p \<in> set white_space \<Longrightarrow> p \<noteq> [] \<and> \<not> visible (hd p) \<and> \<not> visible (last p)"
  by (auto simp: white_space_def visible_def)

lemma strip_visible:
  assumes "s \<noteq> []" and "\<And>p. p \<in> set seqs \<Longrightarrow> \<not> visible (hd p)" and "visible (hd s)"
  shows "strip seqs s = s"
proof (rule strip_id)
  have "hd p = hd s" if "p \<noteq> []" "starts_with p s" for p
    using that assms(1) unfolding starts_with_def by (metis hd_take length_greater_0_conv)
  with assms(2,3) show "find (\<lambda>p. p \<noteq> [] \<and> starts_with p s) seqs = None"
    unfolding find_None_iff by metis
qed

lemma visible_entry:
  assumes "s \<noteq> []" and "CHR '','' \<notin> set s" and "visible (hd s)" and "visible (last s)"
  shows "clean_entry s"
proof -
  have "strip white_space s = s"
    using assms white_space_invisible by (intro strip_visible) auto
  moreover have "strip (map rev white_space) (rev s) = rev s"
    using assms white_space_invisible by (intro strip_visible) (auto simp: hd_rev)
  ultimately show ?thesis using assms by (simp add: clean_entry_def TrimSpace_def)
qed

lemma split_commas_append:
  "CHR '','' \<notin> set p \<Longrightarrow> split_commas (p @ CHR '','' # s) = p # split_commas s"
  by (induction p) auto

lemma split_commas_single: "CHR '','' \<notin> set p \<Longrightarrow> split_commas p = [p]"
  by (induction p) auto

lemma split_join:
  "ps \<noteq> [] \<Longrightarrow> \<forall>p\<in>set ps. CHR '','' \<notin> set p \<Longrightarrow> split_commas (join_commas ps) = ps"
  by (induction ps rule: join_commas.induct) (simp_all add: split_commas_append split_commas_single)

text \<open>The entries of \<^verbatim>\<open>RELAY_ADDRS\<close>: no entry is empty, contains a comma or starts or ends with white
  space, so an unset or blank variable gives no entries, and a list of such entries written with
  commas between them is read back unchanged. Client and server do the same.\<close>

lemma splitNonEmpty_entries:
  "(\<forall>p\<in>set (splitNonEmpty csv). clean_entry p) \<and>
   ((\<forall>p\<in>set ps. clean_entry p) \<longrightarrow> splitNonEmpty (join_commas ps) = ps) \<and>
   client_splitNonEmpty csv = splitNonEmpty csv"
proof (intro conjI ballI impI)
  fix p
  assume "p \<in> set (splitNonEmpty csv)"
  then show "clean_entry p"
    using split_commas_no_comma set_TrimSpace TrimSpace_idem
    by (fastforce simp: splitNonEmpty_eq clean_entry_def)
next
  assume clean: "\<forall>p\<in>set ps. clean_entry p"
  then have "map TrimSpace ps = ps" "filter (\<lambda>p. p \<noteq> []) ps = ps"
    by (auto simp: clean_entry_def map_idI filter_id_conv)
  then show "splitNonEmpty (join_commas ps) = ps"
    using clean split_join [of ps] by (cases "ps = []") (auto simp: splitNonEmpty_eq clean_entry_def)
qed (simp add: client_splitNonEmpty_def splitNonEmpty_def)

end
