(* ===== verification/Reports.thy ===== *)
theory Reports
  imports Server_Client Robustness
begin

text \<open>
  What the programs report. The log of a transfer is an exact account of its state machine: it can be
  read back, line by line, as a path through the transition table, and at the end it tells the state,
  the chunk and the error of the session. The ends of a stream report a failure once and close the
  stream last, on every path.
\<close>

section \<open>Reading a log back\<close>

text \<open>
  What a reader of the log knows: the state of the machine, the number of the chunk it is at, and the
  error it has given up with.
\<close>

record log_view =
  v_state :: TransferState
  v_chunk :: u32
  v_error :: "go_error option"

definition log_start :: log_view where
  "log_start = \<lparr>v_state = StateIdle, v_chunk = 1, v_error = None\<rparr>"

text \<open>The transitions with which a chunk that is not the last is complete.\<close>

definition completes :: "TransferState \<Rightarrow> TransferState \<Rightarrow> bool" where
  "completes a b \<longleftrightarrow> a \<in> {StateSendKeyReveal, StateVerifyChunk} \<and> b \<noteq> StateVerifyMerkle"

definition chunk_after :: "u32 \<Rightarrow> TransferState \<Rightarrow> TransferState \<Rightarrow> u32" where
  "chunk_after n a b = (if completes a b then n + 1 else n)"

text \<open>
  A line is read if it fits: a transition has to start in the known state, be one of the table's and
  show the right number; the error line has to name the known state, and ends the account.
\<close>

definition read_transition :: "log_view \<Rightarrow> u32 \<Rightarrow> string \<Rightarrow> string \<Rightarrow> log_view option" where
  "read_transition v n a b =
     (if a \<noteq> state_String (v_state v) then None
      else case find (\<lambda>st. state_String st = b) (validTransitions (v_state v)) of
        None \<Rightarrow> None
      | Some st \<Rightarrow>
          if n = chunk_after (v_chunk v) (v_state v) st then Some (v\<lparr>v_state := st, v_chunk := n\<rparr>) else None)"

definition read_failure :: "log_view \<Rightarrow> string \<Rightarrow> go_error \<Rightarrow> log_view option" where
  "read_failure v a e =
     (if a = state_String (v_state v) \<and> v_state v \<noteq> StateError
      then Some (v\<lparr>v_state := StateError, v_error := Some e\<rparr>) else None)"

fun read_line :: "log_view \<Rightarrow> string \<Rightarrow> go_arg list \<Rightarrow> log_view option" where
  "read_line v fmt [AU32 n, AU32 m, AStr a, AStr b] =
     (if fmt = ''[Chunk %d/%d] %s -> %s'' then read_transition v n a b else None)"
| "read_line v fmt [AStr a, AErr e] =
     (if fmt = ''[FSM] %s -> Error: %v'' then read_failure v a e else None)"
| "read_line v fmt _ = None"

fun read_log :: "log_view \<Rightarrow> event \<Rightarrow> log_view option" where
  "read_log v (QLogf fmt args, r) = read_line v fmt args"
| "read_log v (_, r) = Some v"

section \<open>The loop keeps its log\<close>

fun logs :: "req \<Rightarrow> bool" where
  "logs (QLogf fmt args) = True"
| "logs _ = False"

lemma read_log_other: "\<not> logs q \<Longrightarrow> read_log v (q, r) = Some v"
  by (cases q) simp_all

lemma find_state: "st \<in> set sts \<Longrightarrow> find (\<lambda>x. state_String x = state_String st) sts = Some st"
  by (induction sts) (auto dest: state_String_inj)

lemma read_moved:
  "isAllowed (v_state v) st \<Longrightarrow> n = chunk_after (v_chunk v) (v_state v) st \<Longrightarrow>
   read_line v ''[Chunk %d/%d] %s -> %s'' [AU32 n, AU32 m, AStr (state_String (v_state v)), AStr (state_String st)] =
     Some (v\<lparr>v_state := st, v_chunk := n\<rparr>)"
  by (simp add: read_transition_def find_state isAllowed_iff)

text \<open>
  A step writes nothing to the log, leaves the state to the loop, returns a state of the table, and
  advances the chunk exactly when one is complete.
\<close>

fun keeps_count :: "Session \<Rightarrow> Session \<times> TransferState go_result \<Rightarrow> bool" where
  "keeps_count s (s', Inl e) \<longleftrightarrow> s_state s' = s_state s \<and> s_CurrentChunk s' = s_CurrentChunk s"
| "keeps_count s (s', Inr st) \<longleftrightarrow> s_state s' = s_state s \<and> isAllowed (s_state s) st \<and>
     s_CurrentChunk s' = chunk_after (s_CurrentChunk s) (s_state s) st"

lemma sender_step_counts:
  "senderSteps H (s_state s) = Some step \<Longrightarrow> avoids logs (keeps_count s) (step s)"
  by (cases "s_state s")
    (auto simp: sender_step_defs send_defs Let_def root_of_built_tree isAllowed_iff chunk_after_def completes_def AdvanceChunk_def
      intro!: avoids_try avoids_then split: option.split)

lemma verifyMerkle_body_counts: "s_state s = StateVerifyMerkle \<Longrightarrow> avoids logs (keeps_count s) (verifyMerkle_body H s)"
  by (auto simp: verifyMerkle_body_def send_defs root_of_built_tree isAllowed_iff chunk_after_def completes_def
      intro!: avoids_try avoids_then)

lemma receiver_step_counts:
  assumes "receiverSteps H (s_state s) = Some step"
  shows "avoids logs (keeps_count s) (step s)"
proof (cases "s_state s = StateVerifyMerkle")
  case True
  have "avoids logs (\<lambda>x. avoids logs (keeps_count s) (io_bind (FileClose (s_File s)) (\<lambda>_. Ret x))) (verifyMerkle_body H s)"
    by (rule avoids_mono [OF verifyMerkle_body_counts [OF True]]) (auto intro!: avoids_then)
  with assms True show ?thesis by (auto simp: stepReceiverVerifyMerkle_def avoids_bind)
next
  case False
  with assms show ?thesis
    by (cases "s_state s")
      (auto simp: receiver_step_defs(1-7) send_defs Let_def isAllowed_iff chunk_after_def completes_def AdvanceChunk_def
        intro!: avoids_try avoids_then split: option.split sum.split)
qed

text \<open>The view agrees with the session; a result is told by the view.\<close>

definition agrees :: "log_view \<Rightarrow> Session \<Rightarrow> bool" where
  "agrees v s \<longleftrightarrow> v_state v = s_state s \<and> v_chunk v = s_CurrentChunk s + 1"

definition told :: "run_result \<Rightarrow> log_view \<Rightarrow> bool" where
  "told res v \<longleftrightarrow> (\<forall>s err. res = Returned s err \<longrightarrow> agrees v s \<and> v_error v = err)"

lemma told_simps [simp]: "told OutOfFuel v" "told (Returned s err) v \<longleftrightarrow> agrees v s \<and> v_error v = err"
  by (auto simp: told_def)

lemma told_fail:
  "agrees v s \<Longrightarrow> s_state s \<noteq> StateError \<Longrightarrow> wph (\<lambda>_ _. True) read_log (run_fail s err) told v"
  by (simp add: run_fail_eq Logf_def read_failure_def agrees_def)

lemma run_next_told:
  assumes "agrees v s" and "s_state s \<noteq> StateError" and "v_error v = None" and "keeps_count s x"
    and go: "\<And>s' v'. agrees v' s' \<Longrightarrow> s_state s' \<noteq> StateError \<Longrightarrow> v_error v' = None \<Longrightarrow>
      wph (\<lambda>_ _. True) read_log (Run fuel s' steps) told v'"
  shows "wph (\<lambda>_ _. True) read_log (run_next fuel steps (s_state s) x) told v"
proof -
  obtain s' r where x: "x = (s', r)" by (cases x)
  show ?thesis
  proof (cases r)
    case (Inl e)
    with x assms(1,2,4) show ?thesis by (auto simp: run_next_def agrees_def intro!: told_fail)
  next
    case (Inr st)
    with x assms(4) have s': "s_state s' = s_state s" "isAllowed (s_state s) st"
      "s_CurrentChunk s' = chunk_after (s_CurrentChunk s) (s_state s) st" by auto
    then have "st \<noteq> StateError" by (cases "s_state s") (auto simp: isAllowed_iff)
    moreover have "s_CurrentChunk s' + 1 = chunk_after (v_chunk v) (v_state v) st"
      using assms(1) s' by (simp add: agrees_def chunk_after_def)
    ultimately show ?thesis
      using Inr x s' assms(1,3) read_moved [of v st "s_CurrentChunk s' + 1" "s_TotalChunks s'"]
      by (auto simp: run_next_def Transition_def Logf_def agrees_def intro!: go)
  qed
qed

lemma Run_told:
  assumes "\<And>s step. steps (s_state s) = Some step \<Longrightarrow> avoids logs (keeps_count s) (step s)"
  shows "agrees v s \<Longrightarrow> s_state s \<noteq> StateError \<Longrightarrow> v_error v = None \<Longrightarrow>
    wph (\<lambda>_ _. True) read_log (Run fuel s steps) told v"
proof (induction fuel arbitrary: s v)
  case 0
  then show ?case by simp
next
  case (Suc fuel)
  have "wph (\<lambda>_ _. True) read_log (step s) (\<lambda>x. wph (\<lambda>_ _. True) read_log (run_next fuel steps (s_state s) x) told) v"
    if "steps (s_state s) = Some step" for step
    by (rule avoids_wp [OF assms [OF that], where I = "\<lambda>v'. v' = v"])
      (auto simp: read_log_other intro!: run_next_told [OF Suc.prems] Suc.IH)
  with Suc.prems show ?case
    by (auto simp: Run_Suc wp_bind intro!: told_fail split: option.split)
qed

lemma receiver_told: "wph (\<lambda>_ _. True) read_log (RecieveFile H fuel) told log_start"
  unfolding RecieveFile_def
  by (rule Run_told, erule receiver_step_counts) (simp_all add: agrees_def log_start_def NewSession_def)

lemma sender_told: "wph (\<lambda>_ _. True) read_log (SendFile H fuel path) told log_start"
proof -
  have "wph (\<lambda>_ _. True) read_log (Run fuel (sender_session f fileID h) (senderSteps H)) told log_start" for f fileID h
    by (rule Run_told, erule sender_step_counts)
      (simp_all add: agrees_def log_start_def sender_session_def NewSession_def)
  then have "wph (\<lambda>_ _. True) read_log (io_bind (Run fuel (sender_session f fileID h) (senderSteps H))
      (\<lambda>res. io_bind (FileClose (Some f)) (\<lambda>_. Ret res))) told log_start" for f fileID h
    unfolding wp_bind by (rule wp_mono) (simp add: FileClose_def)
  then show ?thesis
    unfolding SendFile_def generateFileID_def PrepareMetadata_def Let_def OpenFile_def FileStat_def TimeNow_def
    by (auto simp: io_bind_assoc split: option.split)
qed

text \<open>C16: the log of a transfer tells the truth. In every execution of \<^verbatim>\<open>SendFile\<close> or \<^verbatim>\<open>RecieveFile\<close>, whatever
  the peer and the disk do, the lines written to the log can be read back from the state \<^verbatim>\<open>Idle\<close>: each
  \<^verbatim>\<open>[Chunk i/n] a -> b\<close> starts in the state the lines before it led to and is a transition of the table, its
  number \<open>i\<close> starts at one and goes up by one exactly when a chunk other than the last is complete, and an
  \<^verbatim>\<open>[FSM] a -> Error\<close> line is the last. When the transfer has returned, what was read back is the state
  and the current chunk of the session, and the error that was returned, none without such a line.\<close>

theorem log_tells_truth:
  assumes "exec (endpoint H fuel path role) es = Some p"
  shows "\<exists>v. mon_run read_log log_start es = Some v \<and>
    (\<forall>s err. p = Ret (Returned s err) \<longrightarrow>
      v_state v = s_state s \<and> v_chunk v = s_CurrentChunk s + 1 \<and> v_error v = err)"
proof -
  have "wph (\<lambda>_ _. True) read_log (endpoint H fuel path role) told log_start"
    by (cases role) (simp_all add: sender_told receiver_told)
  from wp_exec [OF this assms] show ?thesis by (auto simp: told_def agrees_def)
qed

section \<open>The end of a stream\<close>

text \<open>Closing and resetting the stream, and the reports of the programs around a transfer.\<close>

fun ends_stream :: "req \<Rightarrow> bool" where
  "ends_stream QClose = True"
| "ends_stream QReset = True"
| "ends_stream (QLogln args) = True"
| "ends_stream _ = False"

lemma sender_step_stays: "senderSteps H st = Some step \<Longrightarrow> avoids ends_stream (\<lambda>_. True) (step s)"
  by (cases st)
    (auto simp: sender_step_defs send_defs Let_def root_of_built_tree intro!: avoids_try avoids_then split: option.split)

lemma receiver_step_stays: "receiverSteps H st = Some step \<Longrightarrow> avoids ends_stream (\<lambda>_. True) (step s)"
  by (cases st)
    (auto simp: receiver_step_defs send_defs Let_def root_of_built_tree intro!: avoids_try avoids_then
      split: option.split sum.split)

lemma transfers_stay:
  "avoids ends_stream (\<lambda>_. True) (SendFile H fuel path)" "avoids ends_stream (\<lambda>_. True) (RecieveFile H fuel)"
proof -
  have "avoids ends_stream (\<lambda>_. True) (Run fuel s (senderSteps H))" for s
    by (rule Run_avoids) (simp_all add: sender_step_stays)
  then show "avoids ends_stream (\<lambda>_. True) (SendFile H fuel path)"
    unfolding SendFile_def generateFileID_def PrepareMetadata_def Let_def OpenFile_def FileStat_def TimeNow_def
    by (auto intro!: avoids_then split: option.split)
  show "avoids ends_stream (\<lambda>_. True) (RecieveFile H fuel)"
    unfolding RecieveFile_def by (rule Run_avoids) (simp_all add: receiver_step_stays)
qed

text \<open>What the log gets from an end, and what it should get.\<close>

fun log_report :: "event \<Rightarrow> go_arg list list" where
  "log_report (QLogln args, r) = [args]"
| "log_report _ = []"

fun report_of :: "outcome \<Rightarrow> go_arg list list" where
  "report_of (BadRequest what e) = [[AStr what, AErr e]]"
| "report_of (Sent (Returned s (Some err))) = [[AStr ''SendFile failed:'', AErr err]]"
| "report_of (Received (Returned s (Some err))) = [[AStr ''RecieveFile failed:'', AErr err]]"
| "report_of _ = []"

fun is_bad :: "outcome \<Rightarrow> bool" where
  "is_bad (BadRequest what e) = True"
| "is_bad _ = False"

text \<open>A monitor that collects the reports and the resets, and allows no close.\<close>

fun collect :: "go_arg list list \<times> bool \<Rightarrow> event \<Rightarrow> (go_arg list list \<times> bool) option" where
  "collect m (QClose, r) = None"
| "collect m e = Some (fst m @ log_report e, snd m \<or> fst e = QReset)"

lemma collect_other: "\<not> ends_stream q \<Longrightarrow> collect m (q, r) = Some m"
  by (cases q) simp_all

lemma collect_run:
  "mon_run collect m es = Some m' \<Longrightarrow>
   QClose \<notin> fst ` set es \<and> m' = (fst m @ concat (map log_report es), snd m \<or> QReset \<in> fst ` set es)"
proof (induction es arbitrary: m)
  case (Cons e es)
  obtain q r where e: "e = (q, r)" by (cases e)
  from Cons.prems obtain m1 where 1: "collect m e = Some m1" and 2: "mon_run collect m1 es = Some m'"
    by (auto split: option.splits)
  from 1 have "q \<noteq> QClose \<and> m1 = (fst m @ log_report e, snd m \<or> q = QReset)" unfolding e by (cases q) auto
  with Cons.IH [OF 2] e show ?case by auto
qed simp

abbreviation reporting :: "outcome \<Rightarrow> go_arg list list \<times> bool \<Rightarrow> bool" where
  "reporting out m \<equiv> m = (report_of out, is_bad out)"

lemma collect_transfer:
  "avoids ends_stream (\<lambda>_. True) p \<Longrightarrow> (\<And>x. Q x m) \<Longrightarrow> wph (\<lambda>_ _. True) collect p Q m"
  by (rule avoids_wp [where I = "\<lambda>m'. m' = m"]) (auto simp: collect_other)

lemma collect_ReadFull: "(\<And>x. Q x m) \<Longrightarrow> wph (\<lambda>_ _. True) collect (ReadFull n) Q m"
  by (rule collect_transfer) simp_all

lemma collect_over:
  "wph (\<lambda>_ _. True) collect (send_over H fuel path) reporting ([], False)"
  "wph (\<lambda>_ _. True) collect (receive_over H fuel) reporting ([], False)"
  unfolding send_over_def receive_over_def wp_bind
  by (rule collect_transfer [OF transfers_stay(1)],
      auto simp: log_failure_def Logln_def split: run_result.split option.split)
    (rule collect_transfer [OF transfers_stay(2)],
      auto simp: log_failure_def Logln_def split: run_result.split option.split)

lemma collect_bad: "wph (\<lambda>_ _. True) collect (bad_request what e) reporting ([], False)"
  by (simp add: bad_request_def Logln_def ConnReset_def)

text \<open>Both ends are a body that collects its report, with the deferred \<^verbatim>\<open>Close\<close> behind it.\<close>

lemma handler_body:
  "\<exists>body. HandleStream remote H fuel = close_after body \<and> wph (\<lambda>_ _. True) collect body reporting ([], False)"
  unfolding HandleStream_def Let_def
  by (intro exI conjI, rule refl)
    (auto simp: wp_bind collect_over collect_bad Println_def Printf_nl_def intro!: collect_ReadFull split: sum.split)

lemma client_body:
  "\<exists>body. client_stream H fuel method path = close_after body \<and> wph (\<lambda>_ _. True) collect body reporting ([], False)"
  unfolding client_stream_def
  by (intro exI conjI, rule refl)
    (auto simp: wp_bind collect_over RequestFile_def Println_def ConnWrite_def split: sum.split)


end
