(* ===== verification/Scenario.thy ===== *)
theory Scenario
  imports End_To_End Integrity Robustness Reports
begin

text \<open>
  A one-byte file, event by event: concrete executions of both sides, at which the properties of
  the other theories are instantiated. The digest is the constant function (any digest of 32 bytes
  will do), the random source delivers ones for the key and twos for the nonce.
\<close>

section \<open>The scenario\<close>

definition zero_digest :: digest where
  "zero_digest _ = replicate 32 0"

definition demo_key :: bytes where
  "demo_key = replicate 32 1"

definition demo_nonce :: bytes where
  "demo_nonce = replicate 12 2"

definition demo_header :: MetaData where
  "demo_header = \<lparr>h_Name = ''f'', h_FileSize = 1, h_Reps = 1, h_FileID = replicate 32 0\<rparr>"

definition demo_chunk :: Chunk where
  "demo_chunk =
     \<lparr>c_FileID = replicate 32 0, c_Index = 0, c_Length = 1, c_Plaintext = [7],
      c_Ciphertext = gcm_Seal demo_key demo_nonce [7], c_Key = demo_key, c_Nonce = demo_nonce,
      c_HResp = replicate 32 0, c_Leaf = []\<rparr>"

abbreviation (input) "got b \<equiv> Reply None b 0"

text \<open>The line of the log for a transition within the one chunk of the file, when \<open>n\<close> chunks are announced.\<close>

definition moved :: "u32 \<Rightarrow> TransferState \<Rightarrow> TransferState \<Rightarrow> event" where
  "moved n a b =
     (QLogf ''[Chunk %d/%d] %s -> %s'' [AU32 1, AU32 n, AStr (state_String a), AStr (state_String b)], got [])"

definition printed :: "string \<Rightarrow> go_arg list \<Rightarrow> event" where
  "printed fmt args = (QPrintf (fmt @ [CHR 0x0A]) args, got [])"

definition sender_setup :: "event list" where
  "sender_setup =
     [(QFOpen ''f'', got []), (QFStat ''f'', Reply None (str_bytes ''f'') 1), (QNow, got []),
      (QFStat ''f'', Reply None (str_bytes ''f'') 1), moved 1 StateIdle StateSendHeader,
      (QWrite (HeaderBytes demo_header), got []), moved 1 StateSendHeader StateWaitingChunkRequest]"

definition sender_chunk :: "event list" where
  "sender_chunk =
     [(QRead 1, got [2]), (QRead 4, got [0, 0, 0, 0]), moved 1 StateWaitingChunkRequest StateSendChunkResponse,
      (QFReadAt ''f'' 32768 0, Reply (Some EOF) [7] 0), (QRand 32, got demo_key), (QRand 12, got demo_nonce),
      (QWrite (ChunkResponseBytes demo_chunk), got []), moved 1 StateSendChunkResponse StateWaitingLotteryTicket,
      (QRead 1, got [4]), (QRead 4, got [0, 0, 0, 0]), moved 1 StateWaitingLotteryTicket StateSendKeyReveal]"

definition sender_end :: "event list" where
  "sender_end =
     [moved 1 StateSendKeyReveal StateVerifyMerkle,
      (QWrite (RootBytes (replicate 32 0)), got []), (QRead 1, got [7]),
      printed ''Sent %d chunks, merkle root: %x'' [AU32 1, AHex (replicate 32 0)],
      moved 1 StateVerifyMerkle StateFinished, (QFClose ''f'', got [])]"

lemma exec_bind: "exec p es = Some p' \<Longrightarrow> exec (io_bind p f) es = Some (io_bind p' f)"
  by (induction p es rule: exec.induct) (auto split: io.splits if_splits)

lemmas exec_defs = io_prim_defs io_try_def reply_bytes_def reply_unit_def send_defs read_defs

lemma observe_output [simp]: "observe g (moved n a b) = g" "observe g (printed fmt args) = g"
  by (simp_all add: moved_def printed_def)

lemma merkle_root_single: "merkle_root H [x] = x"
  by (subst merkle_root.simps) simp

lemma exec_then: "exec p es = Some p' \<Longrightarrow> exec p (es @ fs) = exec p' fs"
  by (simp add: exec_append)

lemma Keccak_zero: "Keccak zero_digest xs = replicate 32 0"
  by (simp add: Keccak_def zero_digest_def)

lemma leaf_zero: "GenerateLeaf zero_digest c = replicate 32 0"
  by (simp add: GenerateLeaf_def Keccak_eq zero_digest_def)

text \<open>The session of the sender in a state.\<close>

definition sdemo :: "TransferState \<Rightarrow> Chunk option \<Rightarrow> bytes list \<Rightarrow> Session" where
  "sdemo st pend ls = at_round (sender_session ''f'' (replicate 32 0) demo_header) st 0 pend ls"

lemma sdemo_fields [simp]:
  "s_state (sdemo st pend ls) = st" "s_CurrentChunk (sdemo st pend ls) = 0"
  "s_PendingChunk (sdemo st pend ls) = pend" "s_Leaves (sdemo st pend ls) = ls"
  "s_File (sdemo st pend ls) = Some ''f''" "s_FileID (sdemo st pend ls) = replicate 32 0"
  "s_ChunkSize (sdemo st pend ls) = 32768" "s_TotalChunks (sdemo st pend ls) = 1"
  "s_FileName (sdemo st pend ls) = ''f''" "s_FileSize (sdemo st pend ls) = 1"
  "(sdemo st pend ls)\<lparr>s_state := st'\<rparr> = sdemo st' pend ls"
  "(sdemo st pend ls)\<lparr>s_PendingChunk := pend'\<rparr> = sdemo st pend' ls"
  "(sdemo st pend ls)\<lparr>s_Leaves := ls'\<rparr> = sdemo st pend ls'"
  by (simp_all add: sdemo_def at_round_def sender_session_def NewSession_def demo_header_def)

lemma demo_metadata: "(metadata_of ''f'' 1)\<lparr>h_FileID := replicate 32 0\<rparr> = demo_header"
proof -
  have "metadata_of ''f'' (word_of_nat 1) =
      \<lparr>h_Name = ''f'', h_FileSize = word_of_nat 1, h_Reps = word_of_nat (chunk_count 1), h_FileID = []\<rparr>"
    by (rule metadata_of_size) simp
  then show ?thesis by (simp add: demo_header_def chunk_count_def)
qed

text \<open>An iteration: the events of the step, then the line of the log.\<close>

lemma exec_iteration:
  assumes "exec (the (steps (s_state s)) s) es = Some (Ret (s1, Inr st))"
    and "steps (s_state s) \<noteq> None" and "s_state s \<noteq> StateFinished" and "s_state s \<noteq> StateError"
    and "isAllowed (s_state s1) st" and "s_CurrentChunk s1 = 0"
  shows "exec (Run (Suc f) s steps) (es @ [moved (s_TotalChunks s1) (s_state s1) st]) =
    Some (Run f (s1\<lparr>s_state := st\<rparr>) steps)"
  unfolding Run_step [of steps s, OF assms(2-4)] exec_then [OF exec_bind [OF assms(1)]]
  using assms(5,6) by (simp add: run_next_def Transition_def Logf_def moved_def)

lemma exec_sender_iteration:
  assumes "exec (the (senderSteps zero_digest st) (sdemo st pend ls)) es = Some (Ret (sdemo st pend' ls', Inr st'))"
    and "isAllowed st st'" and "senderSteps zero_digest st \<noteq> None"
  shows "exec (Run (Suc f) (sdemo st pend ls) (senderSteps zero_digest)) (es @ [moved 1 st st']) =
    Some (Run f (sdemo st' pend' ls') (senderSteps zero_digest))"
  using exec_iteration [of "senderSteps zero_digest" "sdemo st pend ls" es "sdemo st pend' ls'" st' f] assms
  by (cases st) auto

lemma exec_sender_setup:
  "exec (SendFile zero_digest (Suc (Suc f)) ''f'') sender_setup =
     Some (io_bind (Run f (sdemo StateWaitingChunkRequest None []) (senderSteps zero_digest)) (closing ''f''))"
proof -
  let ?head = "[(QFOpen ''f'', got []), (QFStat ''f'', Reply None (str_bytes ''f'') 1), (QNow, got []),
      (QFStat ''f'', Reply None (str_bytes ''f'') 1)]" and ?hdr = "[(QWrite (HeaderBytes demo_header), got [])]"
  have split: "sender_setup = ?head @ ([] @ [moved 1 StateIdle StateSendHeader]) @
      (?hdr @ [moved 1 StateSendHeader StateWaitingChunkRequest])"
    by (simp add: sender_setup_def)
  have idle: "sender_session ''f'' (replicate 32 0) demo_header = sdemo StateIdle None []"
    by (simp add: sdemo_def at_round_def sender_session_def NewSession_def)
  have 1: "exec (SendFile zero_digest (Suc (Suc f)) ''f'') ?head =
      Some (io_bind (Run (Suc (Suc f)) (sdemo StateIdle None []) (senderSteps zero_digest)) (closing ''f''))"
    by (simp add: sender_setup_def SendFile_def generateFileID_def PrepareMetadata_def exec_defs
        Keccak_zero demo_metadata idle closing_def [abs_def])
  have 2: "exec (Run (Suc (Suc f)) (sdemo StateIdle None []) (senderSteps zero_digest)) ([] @ [moved 1 StateIdle StateSendHeader]) =
      Some (Run (Suc f) (sdemo StateSendHeader None []) (senderSteps zero_digest))"
    by (rule exec_sender_iteration) (simp_all add: stepSenderIdle_def isAllowed_iff)
  have 3: "exec (Run (Suc f) (sdemo StateSendHeader None []) (senderSteps zero_digest))
      (?hdr @ [moved 1 StateSendHeader StateWaitingChunkRequest]) =
      Some (Run f (sdemo StateWaitingChunkRequest None []) (senderSteps zero_digest))"
    by (rule exec_sender_iteration) (simp_all add: stepSenderSendHeader_def exec_defs demo_header_def isAllowed_iff)
  show ?thesis
    unfolding split exec_then [OF 1] exec_then [OF exec_bind [OF 2]] by (rule exec_bind [OF 3])
qed

lemma exec_sender_chunk:
  "exec (Run (Suc (Suc (Suc f))) (sdemo StateWaitingChunkRequest None []) (senderSteps zero_digest)) sender_chunk =
     Some (Run f (sdemo StateSendKeyReveal (Some demo_chunk) []) (senderSteps zero_digest))"
proof -
  let ?run = "\<lambda>f st p. Run f (sdemo st p []) (senderSteps zero_digest)"
  let ?req = "[(QRead 1, got [2]), (QRead 4, got [0, 0, 0, 0])]" and ?ticket = "[(QRead 1, got [4]), (QRead 4, got [0, 0, 0, 0])]"
    and ?resp = "[(QFReadAt ''f'' 32768 0, Reply (Some EOF) [7] 0), (QRand 32, got demo_key), (QRand 12, got demo_nonce),
       (QWrite (ChunkResponseBytes demo_chunk), got [])]"
  have r1: "exec (?run (Suc (Suc (Suc f))) StateWaitingChunkRequest None)
      (?req @ [moved 1 StateWaitingChunkRequest StateSendChunkResponse]) = Some (?run (Suc (Suc f)) StateSendChunkResponse None)"
    by (rule exec_sender_iteration) (simp_all add: stepSenderWaitChunkRequest_def exec_defs isAllowed_iff)
  have r2: "exec (?run (Suc (Suc f)) StateSendChunkResponse None)
      (?resp @ [moved 1 StateSendChunkResponse StateWaitingLotteryTicket]) =
      Some (?run (Suc f) StateWaitingLotteryTicket (Some demo_chunk))"
    by (rule exec_sender_iteration)
      (simp_all add: stepSenderSendChunkResponse_def ReadChunkPlaintext_def BuildAndEncryptChunk_def
        GenerateRandomKey_def EncryptChunk_def Let_def NewChunk_def demo_chunk_def demo_key_def demo_nonce_def
        aes_key_ok_def gcm_limit_def ComputeResponseCommitment_def Keccak_eq zero_digest_def exec_defs isAllowed_iff)
  have r3: "exec (?run (Suc f) StateWaitingLotteryTicket (Some demo_chunk))
      (?ticket @ [moved 1 StateWaitingLotteryTicket StateSendKeyReveal]) = Some (?run f StateSendKeyReveal (Some demo_chunk))"
    by (rule exec_sender_iteration) (simp_all add: stepSenderWaitLotteryTicket_def exec_defs isAllowed_iff)
  have split: "sender_chunk = (?req @ [moved 1 StateWaitingChunkRequest StateSendChunkResponse]) @
      (?resp @ [moved 1 StateSendChunkResponse StateWaitingLotteryTicket]) @
      (?ticket @ [moved 1 StateWaitingLotteryTicket StateSendKeyReveal])"
    by (simp add: sender_chunk_def)
  show ?thesis unfolding split exec_then [OF r1] exec_then [OF r2] by (rule r3)
qed

lemma exec_sender_key:
  "exec (Run (Suc f) (sdemo StateSendKeyReveal (Some demo_chunk) []) (senderSteps zero_digest))
     ([(QWrite (KeyRevealBytes 0 demo_key), got [])] @ [moved 1 StateSendKeyReveal StateVerifyMerkle]) =
   Some (Run f (sdemo StateVerifyMerkle None [replicate 32 0]) (senderSteps zero_digest))"
  by (rule exec_sender_iteration)
    (simp_all add: stepSenderSendKeyReveal_def exec_defs leaf_zero IsLastChunk_def isAllowed_iff Let_def demo_chunk_def)

lemma exec_sender_end:
  "exec (Run (Suc f) (sdemo StateVerifyMerkle None [replicate 32 0]) (senderSteps zero_digest))
     ([(QWrite (RootBytes (replicate 32 0)), got []), (QRead 1, got [7]),
       printed ''Sent %d chunks, merkle root: %x'' [AU32 1, AHex (replicate 32 0)]] @ [moved 1 StateVerifyMerkle StateFinished]) =
   Some (Run f (sdemo StateFinished None [replicate 32 0]) (senderSteps zero_digest))"
  by (rule exec_sender_iteration)
    (simp_all add: stepSenderVerifyMerkle_def root_of_built_tree exec_defs isAllowed_iff merkle_root_single printed_def)

definition demo_sender_run :: "event list" where
  "demo_sender_run = sender_setup @ sender_chunk @ (QWrite (KeyRevealBytes 0 demo_key), got []) # sender_end"

lemma demo_sender:
  "exec (SendFile zero_digest (f + 8) ''f'') demo_sender_run =
     Some (Ret (Returned (sdemo StateFinished None [replicate 32 0]) None))"
proof -
  have f: "f + 8 = Suc (Suc (Suc (Suc (Suc (Suc (Suc (Suc f)))))))" by simp
  have split: "demo_sender_run = sender_setup @ sender_chunk @
      ([(QWrite (KeyRevealBytes 0 demo_key), got [])] @ [moved 1 StateSendKeyReveal StateVerifyMerkle]) @
      ([(QWrite (RootBytes (replicate 32 0)), got []), (QRead 1, got [7]),
       printed ''Sent %d chunks, merkle root: %x'' [AU32 1, AHex (replicate 32 0)]] @ [moved 1 StateVerifyMerkle StateFinished]) @
      [(QFClose ''f'', got [])]"
    by (simp add: demo_sender_run_def sender_end_def)
  show ?thesis
    unfolding f split exec_then [OF exec_sender_setup] exec_then [OF exec_bind [OF exec_sender_chunk]]
      exec_then [OF exec_bind [OF exec_sender_key]] exec_then [OF exec_bind [OF exec_sender_end]]
    by (simp add: closing_def FileClose_def)
qed

section \<open>The receiver\<close>

definition rdemo :: "TransferState \<Rightarrow> Chunk option \<Rightarrow> bytes list \<Rightarrow> Session" where
  "rdemo st pend ls = at_round (receiver_session demo_header) st 0 pend ls"

lemma rdemo_fields [simp]:
  "s_state (rdemo st pend ls) = st" "s_CurrentChunk (rdemo st pend ls) = 0"
  "s_PendingChunk (rdemo st pend ls) = pend" "s_Leaves (rdemo st pend ls) = ls"
  "s_File (rdemo st pend ls) = Some ''./received/f''" "s_FileID (rdemo st pend ls) = replicate 32 0"
  "s_TotalChunks (rdemo st pend ls) = 1"
  "(rdemo st pend ls)\<lparr>s_state := st'\<rparr> = rdemo st' pend ls"
  "(rdemo st pend ls)\<lparr>s_PendingChunk := pend'\<rparr> = rdemo st pend' ls"
  "(rdemo st pend ls)\<lparr>s_Leaves := ls'\<rparr> = rdemo st pend ls'"
  by (simp_all add: rdemo_def at_round_def receiver_session_def NewSession_def demo_header_def output_path_def)

definition receiver_setup :: "event list" where
  "receiver_setup =
     [moved 0 StateIdle StateReceiveHeader,
      (QRead 1, got [1]), (QRead 4, got [0, 0, 0, 1]), (QRead 32, got (replicate 32 0)),
      (QRead 4, got [0, 0, 0, 1]), (QRead 1, got (str_bytes ''f'')), (QRead 4, got [0, 0, 0, 1]),
      (QMkdirAll ''./received/'', got []), (QFCreate ''./received/f'', got []),
      printed ''Reps: %d, name: %s, fileID: %x'' [AU32 1, AStr ''f'', AHex (replicate 32 0)],
      moved 1 StateReceiveHeader StateSendChunkRequest,
      (QWrite (ChunkRequestBytes 0), got []), moved 1 StateSendChunkRequest StateWaitingChunkResponse]"

definition receiver_response :: "event list" where
  "receiver_response =
     [(QRead 1, got [3]), (QRead 4, got [0, 0, 0, 0]), (QRead 4, got [0, 0, 0, 17]),
      (QRead 17, got (gcm_Seal demo_key demo_nonce [7])), (QRead 12, got demo_nonce),
      (QRead 32, got (replicate 32 0)), moved 1 StateWaitingChunkResponse StateSendLotteryTicket]"

definition receiver_key :: "event list" where
  "receiver_key =
     [moved 1 StateSendLotteryTicket StateWaitingKeyReveal,
      (QRead 1, got [5]), (QRead 4, got [0, 0, 0, 0]), (QRead 32, got demo_key),
      moved 1 StateWaitingKeyReveal StateVerifyChunk]"

definition receiver_root :: "event list" where
  "receiver_root =
     [moved 1 StateVerifyChunk StateVerifyMerkle, (QRead 1, got [6]), (QRead 32, got (replicate 32 0)),
      printed ''Merkle root verified: %x'' [AHex (replicate 32 0)]]"

abbreviation (input) "demo_received \<equiv> received_chunk (replicate 32 0) demo_chunk"

lemma exec_receiver_iteration:
  assumes "exec (the (receiverSteps zero_digest st) (rdemo st pend ls)) es = Some (Ret (rdemo st pend' ls', Inr st'))"
    and "isAllowed st st'" and "receiverSteps zero_digest st \<noteq> None"
  shows "exec (Run (Suc f) (rdemo st pend ls) (receiverSteps zero_digest)) (es @ [moved 1 st st']) =
    Some (Run f (rdemo st' pend' ls') (receiverSteps zero_digest))"
  using exec_iteration [of "receiverSteps zero_digest" "rdemo st pend ls" es "rdemo st pend' ls'" st' f] assms
  by (cases st) auto

lemma exec_receiver_setup:
  "exec (RecieveFile zero_digest (Suc (Suc (Suc f)))) receiver_setup =
     Some (Run f (rdemo StateWaitingChunkResponse None []) (receiverSteps zero_digest))"
proof -
  let ?s = "(NewSession RoleReceiver)\<lparr>s_state := StateReceiveHeader\<rparr>"
  let ?hdr = "[(QRead 1, got [1]), (QRead 4, got [0, 0, 0, 1]), (QRead 32, got (replicate 32 0)),
      (QRead 4, got [0, 0, 0, 1]), (QRead 1, got (str_bytes ''f'')), (QRead 4, got [0, 0, 0, 1]),
      (QMkdirAll ''./received/'', got []), (QFCreate ''./received/f'', got []),
      printed ''Reps: %d, name: %s, fileID: %x'' [AU32 1, AStr ''f'', AHex (replicate 32 0)]]"
  have split: "receiver_setup = ([] @ [moved 0 StateIdle StateReceiveHeader]) @
      (?hdr @ [moved 1 StateReceiveHeader StateSendChunkRequest]) @
      ([(QWrite (ChunkRequestBytes 0), got [])] @ [moved 1 StateSendChunkRequest StateWaitingChunkResponse])"
    by (simp add: receiver_setup_def)
  have r0: "exec (RecieveFile zero_digest (Suc (Suc (Suc f)))) ([] @ [moved 0 StateIdle StateReceiveHeader]) =
      Some (Run (Suc (Suc f)) ?s (receiverSteps zero_digest))"
    using exec_iteration [of "receiverSteps zero_digest" "NewSession RoleReceiver" "[]" "NewSession RoleReceiver"
      StateReceiveHeader "Suc (Suc f)"]
    unfolding RecieveFile_def by (simp add: NewSession_def stepReceiverIdle_def isAllowed_iff)
  have "exec (stepReceiverReceiveHeader ?s) ?hdr = Some (Ret (rdemo StateReceiveHeader None [], Inr StateSendChunkRequest))"
    by (simp add: stepReceiverReceiveHeader_def exec_defs rdemo_def at_round_def printed_def
        receiver_session_def demo_header_def output_path_def NewSession_def Let_def)
  then have r1: "exec (Run (Suc (Suc f)) ?s (receiverSteps zero_digest)) (?hdr @ [moved 1 StateReceiveHeader StateSendChunkRequest]) =
      Some (Run (Suc f) (rdemo StateSendChunkRequest None []) (receiverSteps zero_digest))"
    using exec_iteration [of "receiverSteps zero_digest" ?s ?hdr "rdemo StateReceiveHeader None []" StateSendChunkRequest "Suc f"]
    by (simp only: rdemo_fields receiverSteps.simps option.sel Session.select_convs Session.simps isAllowed_iff) simp
  have r2: "exec (Run (Suc f) (rdemo StateSendChunkRequest None []) (receiverSteps zero_digest))
      ([(QWrite (ChunkRequestBytes 0), got [])] @ [moved 1 StateSendChunkRequest StateWaitingChunkResponse]) =
      Some (Run f (rdemo StateWaitingChunkResponse None []) (receiverSteps zero_digest))"
    by (rule exec_receiver_iteration) (simp_all add: stepReceiverSendChunkRequest_def exec_defs isAllowed_iff)
  show ?thesis unfolding split exec_then [OF r0] exec_then [OF r1] by (rule r2)
qed

lemma exec_receiver_response:
  "exec (Run (Suc f) (rdemo StateWaitingChunkResponse None []) (receiverSteps zero_digest)) receiver_response =
     Some (Run f (rdemo StateSendLotteryTicket (Some demo_received) []) (receiverSteps zero_digest))"
proof -
  have split: "receiver_response = butlast receiver_response @ [moved 1 StateWaitingChunkResponse StateSendLotteryTicket]"
    by (simp add: receiver_response_def)
  show ?thesis
    by (subst split, rule exec_receiver_iteration)
      (simp_all add: stepReceiverWaitChunkResponse_def receiver_response_def exec_defs
        isAllowed_iff gcm.length_seal demo_nonce_def received_chunk_def demo_chunk_def)
qed

lemma exec_receiver_ticket:
  "exec (Run (Suc f) (rdemo StateSendLotteryTicket (Some demo_received) []) (receiverSteps zero_digest))
     ([(QWrite (LotteryTicketBytes 0), got [])] @ [moved 1 StateSendLotteryTicket StateWaitingKeyReveal]) =
   Some (Run f (rdemo StateWaitingKeyReveal (Some demo_received) []) (receiverSteps zero_digest))"
  by (rule exec_receiver_iteration) (simp_all add: stepReceiverSendLotteryTicket_def exec_defs isAllowed_iff)

lemma exec_receiver_key:
  "exec (Run (Suc f) (rdemo StateWaitingKeyReveal (Some demo_received) []) (receiverSteps zero_digest))
     ([(QRead 1, got [5]), (QRead 4, got [0, 0, 0, 0]), (QRead 32, got demo_key)] @ [moved 1 StateWaitingKeyReveal StateVerifyChunk]) =
   Some (Run f (rdemo StateVerifyChunk (Some (demo_received\<lparr>c_Key := demo_key\<rparr>)) []) (receiverSteps zero_digest))"
  by (rule exec_receiver_iteration)
    (simp_all add: stepReceiverWaitKeyReveal_def exec_defs isAllowed_iff demo_key_def)

lemma exec_receiver_store:
  "exec (Run (Suc f) (rdemo StateVerifyChunk (Some (demo_received\<lparr>c_Key := demo_key\<rparr>)) []) (receiverSteps zero_digest))
     ([(QFWrite ''./received/f'' [7], got [])] @ [moved 1 StateVerifyChunk StateVerifyMerkle]) =
   Some (Run f (rdemo StateVerifyMerkle None [replicate 32 0]) (receiverSteps zero_digest))"
proof (rule exec_receiver_iteration)
  have "DecryptAndCheck zero_digest (demo_received\<lparr>c_Key := demo_key\<rparr>) =
      Ret (demo_received\<lparr>c_Key := demo_key, c_Plaintext := [7]\<rparr>, Inr [7])"
    unfolding DecryptAndCheck_accepts
    by (simp add: received_chunk_def demo_chunk_def demo_key_def demo_nonce_def aes_key_ok_def
        zero_digest_def gcm_roundtrip gcm_limit_def)
  then show "exec (the (receiverSteps zero_digest StateVerifyChunk) (rdemo StateVerifyChunk (Some (demo_received\<lparr>c_Key := demo_key\<rparr>)) []))
      [(QFWrite ''./received/f'' [7], got [])] = Some (Ret (rdemo StateVerifyChunk None [replicate 32 0], Inr StateVerifyMerkle))"
    by (simp add: stepReceiverVerifyChunk_def exec_defs leaf_zero IsLastChunk_def Let_def)
qed (simp_all add: isAllowed_iff)

lemma exec_receiver_root:
  "exec (Run (Suc f) (rdemo StateVerifyMerkle None [replicate 32 0]) (receiverSteps zero_digest))
     ([(QRead 1, got [6]), (QRead 32, got (replicate 32 0)), printed ''Merkle root verified: %x'' [AHex (replicate 32 0)],
       (QWrite FinalAckBytes, got []), (QFClose ''./received/f'', got [])] @ [moved 1 StateVerifyMerkle StateFinished]) =
   Some (Run f (rdemo StateFinished None [replicate 32 0]) (receiverSteps zero_digest))"
  by (rule exec_receiver_iteration)
    (simp_all add: stepReceiverVerifyMerkle_def verifyMerkle_body_def printed_def
      root_of_built_tree merkle_root_single exec_defs isAllowed_iff)

definition receiver_end :: "event list" where
  "receiver_end = [(QFClose ''./received/f'', got []), moved 1 StateVerifyMerkle StateFinished]"

definition demo_receiver_run :: "event list" where
  "demo_receiver_run = receiver_setup @ receiver_response @ [(QWrite (LotteryTicketBytes 0), got [])] @
     receiver_key @ [(QFWrite ''./received/f'' [7], got [])] @ receiver_root @ [(QWrite FinalAckBytes, got [])] @
     receiver_end"

lemma demo_receiver:
  "exec (RecieveFile zero_digest (f + 9)) demo_receiver_run =
     Some (Ret (Returned (rdemo StateFinished None [replicate 32 0]) None))"
proof -
  have f: "f + 9 = Suc (Suc (Suc (Suc (Suc (Suc (Suc (Suc (Suc f))))))))" by simp
  have split: "demo_receiver_run = receiver_setup @ receiver_response @
      ([(QWrite (LotteryTicketBytes 0), got [])] @ [moved 1 StateSendLotteryTicket StateWaitingKeyReveal]) @
      ([(QRead 1, got [5]), (QRead 4, got [0, 0, 0, 0]), (QRead 32, got demo_key)] @ [moved 1 StateWaitingKeyReveal StateVerifyChunk]) @
      ([(QFWrite ''./received/f'' [7], got [])] @ [moved 1 StateVerifyChunk StateVerifyMerkle]) @
      ([(QRead 1, got [6]), (QRead 32, got (replicate 32 0)), printed ''Merkle root verified: %x'' [AHex (replicate 32 0)],
       (QWrite FinalAckBytes, got []), (QFClose ''./received/f'', got [])] @ [moved 1 StateVerifyMerkle StateFinished])"
    by (simp add: demo_receiver_run_def receiver_key_def receiver_root_def receiver_end_def)
  show ?thesis
    unfolding f split exec_then [OF exec_receiver_setup] exec_then [OF exec_receiver_response]
      exec_then [OF exec_receiver_ticket] exec_then [OF exec_receiver_key] exec_then [OF exec_receiver_store]
      exec_receiver_root
    by simp
qed

text \<open>A connection that is lost after the first request.\<close>

definition lost_error :: go_error where
  "lost_error = Errorf ''reading chunk response %d: %w''
     [AU32 0, AErr (Errorf ''reading %s sentinel: %w'' [AStr ''chunk response'', AErr EOF])]"

abbreviation (input) "lost_result \<equiv> Errorf ''step %s failed: %w'' [AStr (state_String StateWaitingChunkResponse), AErr lost_error]"

definition lost_line :: event where
  "lost_line = (QLogf ''[FSM] %s -> Error: %v'' [AStr (state_String StateWaitingChunkResponse), AErr lost_result], got [])"

definition lost_run :: "event list" where
  "lost_run = receiver_setup @ [(QRead 1, Reply (Some EOF) [] 0), lost_line]"

lemma demo_lost:
  "exec (RecieveFile zero_digest 4) lost_run = Some (Ret (Returned (rdemo StateError None []) (Some lost_result)))"
proof -
  have four: "4 = Suc (Suc (Suc (Suc 0)))" by simp
  have "exec (Run (Suc 0) (rdemo StateWaitingChunkResponse None []) (receiverSteps zero_digest))
      [(QRead 1, Reply (Some EOF) [] 0), lost_line] = Some (Ret (Returned (rdemo StateError None []) (Some lost_result)))"
    by (subst Run_step) (simp_all add: stepReceiverWaitChunkResponse_def exec_defs run_next_def run_fail_eq lost_error_def lost_line_def)
  then show ?thesis unfolding four lost_run_def exec_then [OF exec_receiver_setup] .
qed

text \<open>What the two executions exchanged.\<close>

lemma observed_append: "observed (xs @ ys) = foldl observe (observed xs) ys"
  by (simp add: observed_def)

lemma demo_sender_observed:
  "g_rd (observed (sender_setup @ sender_chunk)) = exchanges 1"
  "last (g_wr (observed demo_sender_run)) = RootBytes (replicate 32 0)"
  by (simp_all add: observed_def ghost_init_def sender_setup_def sender_chunk_def demo_sender_run_def
      sender_end_def exchanges_def exchange_def ChunkRequestBytes_def LotteryTicketBytes_def PutUint32_def)

lemma demo_receiver_observed:
  "\<exists>body. g_rd (observed demo_receiver_run) = HeaderBytes demo_header @ body @ RootBytes (replicate 32 0)"
  by (rule exI [of _ "[3, 0, 0, 0, 0, 0, 0, 0, 17] @ gcm_Seal demo_key demo_nonce [7] @ demo_nonce @ replicate 32 0 @
        [5, 0, 0, 0, 0] @ demo_key"])
    (simp add: observed_def ghost_init_def receiver_setup_def receiver_response_def demo_receiver_run_def
      receiver_key_def receiver_root_def receiver_end_def HeaderBytes_def RootBytes_def demo_header_def PutUint32_def Let_def)

section \<open>The properties at the scenario\<close>

theorem sender_key_after_ticket_witness:
  "exec (SendFile zero_digest 8 ''f'') demo_sender_run \<noteq> None \<and>
   (\<exists>n key. n < 2 ^ 32 \<and> KeyRevealBytes 0 demo_key = KeyRevealBytes (word_of_nat n) key \<and>
      g_rd (observed (sender_setup @ sender_chunk)) = exchanges (Suc n))"
proof
  show run: "exec (SendFile zero_digest 8 ''f'') demo_sender_run \<noteq> None"
    using demo_sender [of 0] by simp
  obtain p where "exec (SendFile zero_digest 8 ''f'')
      ((sender_setup @ sender_chunk) @ (QWrite (KeyRevealBytes 0 demo_key), got []) # sender_end) = Some p"
    using demo_sender [of 0] by (simp add: demo_sender_run_def)
  then show "\<exists>n key. n < 2 ^ 32 \<and> KeyRevealBytes 0 demo_key = KeyRevealBytes (word_of_nat n) key \<and>
      g_rd (observed (sender_setup @ sender_chunk)) = exchanges (Suc n)"
    by (rule sender_key_after_ticket) simp
qed


theorem sender_terminates_witness:
  "exec (SendFile zero_digest (2 ^ 34) ''f'') demo_sender_run =
     Some (Ret (Returned (sdemo StateFinished None [replicate 32 0]) None)) \<and>
   length demo_sender_run \<le> 11 * 2 ^ 34 + 5"
proof -
  have run: "exec (SendFile zero_digest (2 ^ 34) ''f'') demo_sender_run =
      Some (Ret (Returned (sdemo StateFinished None [replicate 32 0]) None))"
    using demo_sender [of "2 ^ 34 - 8"] by simp
  with sender_terminates [OF this] show ?thesis by blast
qed

theorem sender_finished_witness:
  "\<exists>cs. length cs = 1 \<and> sealed_chunk zero_digest (replicate 32 0) 0 (cs ! 0) \<and>
     g_rd (observed demo_sender_run) = exchanges 1 @ FinalAckBytes"
proof -
  have "exec (SendFile zero_digest 8 ''f'') demo_sender_run =
      Some (Ret (Returned (sdemo StateFinished None [replicate 32 0]) None))"
    using demo_sender [of 0] by simp
  from sender_finished [OF this] show ?thesis by (auto split: if_splits)
qed

theorem encrypt_decrypt_witness:
  "\<exists>c'. DecryptAndCheck zero_digest ((received_chunk (replicate 32 0) demo_chunk)\<lparr>c_Key := demo_key\<rparr>) =
     Ret (c', Inr [7]) \<and> c_Index c' = 0"
proof -
  have run: "exec (BuildAndEncryptChunk zero_digest (replicate 32 0) 0 [7])
      [(QRand 32, got demo_key), (QRand 12, got demo_nonce)] = Some (Ret (Inr demo_chunk))"
    by (simp add: BuildAndEncryptChunk_def GenerateRandomKey_def EncryptChunk_def Let_def NewChunk_def
        demo_chunk_def demo_key_def demo_nonce_def aes_key_ok_def gcm_limit_def
        ComputeResponseCommitment_def Keccak_eq zero_digest_def exec_defs)
  have "c_Key demo_chunk = demo_key" by (simp add: demo_chunk_def)
  with encrypt_decrypt [OF run] show ?thesis by (auto simp: gcm_limit_def)
qed

theorem receiver_stores_only_verified_witness:
  "\<exists>xs ys h cs c. demo_receiver_run = xs @ (QFWrite ''./received/f'' [7], got []) # ys \<and>
     ''./received/f'' = output_path h \<and> verified_so_far zero_digest (observed xs) h cs (ChunkResponseBytes c @ KeyRevealBytes (c_Index c) (c_Key c)) \<and>
     accepted_chunk zero_digest (h_FileID h) (length cs) c \<and> [7] = c_Plaintext c"
proof -
  let ?xs = "receiver_setup @ receiver_response @ [(QWrite (LotteryTicketBytes 0), got [])] @ receiver_key"
  let ?ys = "receiver_root @ [(QWrite FinalAckBytes, got [])] @ receiver_end"
  have split: "demo_receiver_run = ?xs @ (QFWrite ''./received/f'' [7], got []) # ?ys"
    by (simp add: demo_receiver_run_def)
  from receiver_stores_only_verified [OF demo_receiver [of 0, unfolded split]] split show ?thesis by blast
qed

theorem receiver_ack_only_verified_witness:
  "\<exists>xs ys h cs. demo_receiver_run = xs @ (QWrite FinalAckBytes, got []) # ys \<and>
     verified_so_far zero_digest (observed xs) h cs
       (RootBytes (merkle_root zero_digest (map (GenerateLeaf zero_digest) cs))) \<and> length cs = unat (h_Reps h)"
proof -
  let ?xs = "receiver_setup @ receiver_response @ [(QWrite (LotteryTicketBytes 0), got [])] @ receiver_key @
     [(QFWrite ''./received/f'' [7], got [])] @ receiver_root"
  let ?ys = receiver_end
  have split: "demo_receiver_run = ?xs @ (QWrite FinalAckBytes, got []) # ?ys"
    by (simp add: demo_receiver_run_def)
  from receiver_ack_only_verified [OF demo_receiver [of 0, unfolded split]] split show ?thesis
    by (metis hd_msgs(7))
qed

theorem receiver_terminates_witness:
  "exec (RecieveFile zero_digest (5 * 2 ^ 32 + 4)) demo_receiver_run =
     Some (Ret (Returned (rdemo StateFinished None [replicate 32 0]) None)) \<and>
   length demo_receiver_run \<le> 11 * (5 * 2 ^ 32 + 4)"
proof -
  have run: "exec (RecieveFile zero_digest (5 * 2 ^ 32 + 4)) demo_receiver_run =
      Some (Ret (Returned (rdemo StateFinished None [replicate 32 0]) None))"
    using demo_receiver [of "5 * 2 ^ 32 - 5"] by simp
  with receiver_terminates [OF this] show ?thesis by blast
qed

theorem receiver_finished_witness:
  "\<exists>h cs. header_ok h \<and> length cs = unat (h_Reps h) \<and> g_fw (observed demo_receiver_run) = stored h cs \<and>
     g_cl (observed demo_receiver_run) = [output_path h]"
  using receiver_finished [OF demo_receiver [of 0]] by blast


theorem endpoints_follow_protocol_witness:
  "\<exists>xs ys cv m st. demo_sender_run = xs @ (QWrite (KeyRevealBytes 0 demo_key), got []) # ys \<and>
     conversation zero_digest (cv @ [m]) st \<and> speaker m = RoleSender \<and> encode m = KeyRevealBytes 0 demo_key \<and>
     spoken RoleSender cv = g_wr (observed xs) \<and> fair (cv @ [m])"
proof -
  have split: "demo_sender_run = (sender_setup @ sender_chunk) @ (QWrite (KeyRevealBytes 0 demo_key), got []) # sender_end"
    by (simp add: demo_sender_run_def)
  have "exec (endpoint zero_digest 8 ''f'' RoleSender)
      ((sender_setup @ sender_chunk) @ (QWrite (KeyRevealBytes 0 demo_key), got []) # sender_end) =
      Some (Ret (Returned (sdemo StateFinished None [replicate 32 0]) None))"
    using demo_sender [of 0] by (simp add: demo_sender_run_def)
  from endpoints_follow_protocol [OF this] split show ?thesis by blast
qed

theorem endpoints_conversation_witness:
  "\<exists>cv h ls. conversation zero_digest cv (Closed h ls) \<and> spoken RoleReceiver cv = g_wr (observed demo_receiver_run) \<and>
     concat (spoken RoleSender cv) = g_rd (observed demo_receiver_run) \<and> said 4 cv = unat (h_Reps h)"
proof -
  have "exec (endpoint zero_digest 9 ''f'' RoleReceiver) demo_receiver_run =
      Some (Ret (Returned (rdemo StateFinished None [replicate 32 0]) None))"
    using demo_receiver [of 0] by simp
  from endpoints_conversation [OF this] show ?thesis by (simp del: One_nat_def) blast
qed


theorem log_tells_truth_witness:
  "(\<exists>v. mon_run read_log log_start lost_run = Some v \<and>
      v_state v = StateError \<and> v_chunk v = 1 \<and> v_error v = Some lost_result) \<and>
   (\<exists>v. mon_run read_log log_start demo_sender_run = Some v \<and> v_state v = StateFinished \<and> v_error v = None)"
proof
  have lost: "exec (endpoint zero_digest 4 ''f'' RoleReceiver) lost_run =
      Some (Ret (Returned (rdemo StateError None []) (Some lost_result)))"
    using demo_lost by simp
  from log_tells_truth [OF lost] show "\<exists>v. mon_run read_log log_start lost_run = Some v \<and>
      v_state v = StateError \<and> v_chunk v = 1 \<and> v_error v = Some lost_result" by fastforce
  have sent: "exec (endpoint zero_digest 8 ''f'' RoleSender) demo_sender_run =
      Some (Ret (Returned (sdemo StateFinished None [replicate 32 0]) None))"
    using demo_sender [of 0] by simp
  from log_tells_truth [OF sent] show "\<exists>v. mon_run read_log log_start demo_sender_run = Some v \<and>
      v_state v = StateFinished \<and> v_error v = None" by fastforce
qed

theorem receiver_disk_verified_witness:
  "\<exists>h cs. header_ok h \<and> stored h cs = [(''./received/f'', [7])] \<and>
     prefix (HeaderBytes h @ chunk_stream cs) (g_rd (observed demo_receiver_run))"
proof -
  have fw: "g_fw (observed demo_receiver_run) = [(''./received/f'', [7])]"
    by (simp add: observed_def ghost_init_def receiver_setup_def receiver_response_def demo_receiver_run_def
        receiver_key_def receiver_root_def receiver_end_def)
  from receiver_disk_verified [OF demo_receiver [of 0]] show ?thesis unfolding fw by (metis list.distinct(1))
qed

theorem file_handles_witness:
  "g_cr (observed lost_run) = [''./received/f''] \<and> g_cl (observed lost_run) = [] \<and> g_cl (observed demo_sender_run) = [''f'']"
proof -
  have lost: "exec (endpoint zero_digest 4 ''f'' RoleReceiver) lost_run = Some (Ret (Returned (rdemo StateError None [])
      (Some (Errorf ''step %s failed: %w'' [AStr (state_String StateWaitingChunkResponse), AErr lost_error]))))"
    using demo_lost by simp
  have sent: "exec (endpoint zero_digest 8 ''f'' RoleSender) demo_sender_run =
      Some (Ret (Returned (sdemo StateFinished None [replicate 32 0]) None))"
    using demo_sender [of 0] by simp
  have "\<exists>out. s_File (rdemo StateError None []) = Some out \<and> g_cr (observed lost_run) = [out] \<and> g_cl (observed lost_run) = []"
    using file_handles [OF lost] by blast
  moreover have "g_cl (observed demo_sender_run) = [''f'']" using file_handles [OF sent] by blast
  ultimately show ?thesis by simp
qed

theorem commitment_binds_witness:
  "DecryptAndCheck zero_digest (demo_received\<lparr>c_Key := demo_key\<rparr>) =
     Ret (demo_received\<lparr>c_Key := demo_key, c_Plaintext := [7]\<rparr>, Inr [7]) \<and>
   (demo_key = demo_key \<and> [7] = ([7] :: bytes) \<or> demo_key @ [7] \<noteq> demo_key @ [7] \<and>
      zero_digest (demo_key @ [7]) = zero_digest (demo_key @ [7]))"
proof -
  have run: "DecryptAndCheck zero_digest (demo_received\<lparr>c_Key := demo_key\<rparr>) =
      Ret (demo_received\<lparr>c_Key := demo_key, c_Plaintext := [7]\<rparr>, Inr [7])"
    unfolding DecryptAndCheck_accepts
    by (simp add: received_chunk_def demo_chunk_def demo_key_def demo_nonce_def aes_key_ok_def
        zero_digest_def gcm_roundtrip gcm_limit_def)
  with commitment_binds [OF run run] show ?thesis by blast
qed

text \<open>A machine with the one-byte file, and one without files.\<close>

definition demo_machine :: "(string \<rightharpoonup> bytes) \<Rightarrow> machine" where
  "demo_machine files = \<lparr>m_files = files, m_now = 0, m_rand = word_of_nat, m_pos = 0\<rparr>"

theorem transfer_delivers_witness:
  "\<exists>N d. (\<forall>k d'. (duplex_step ^^ k) (system (SendFile zero_digest 8 ''f'') (demo_machine [''f'' \<mapsto> [7]])
        (RecieveFile zero_digest 9) (demo_machine Map.empty) [] []) d' \<longrightarrow>
      k \<le> N \<and> (duplex_step ^^ (N - k)) d' d) \<and>
    m_files (right_machine d) ''./received/f'' = Some [7]"
proof -
  have len: "length (zero_digest x) = HashSize" for x by (simp add: zero_digest_def)
  have here: "m_files (demo_machine [''f'' \<mapsto> [7]]) ''f'' = Some [7]" by (simp add: demo_machine_def)
  have base: "base_name ''f'' = ''f''" by (simp add: base_name_def)
  obtain N d where *: "\<forall>k d'. (duplex_step ^^ k) (system (SendFile zero_digest 8 ''f'') (demo_machine [''f'' \<mapsto> [7]])
        (RecieveFile zero_digest 9) (demo_machine Map.empty) [] []) d' \<longrightarrow> k \<le> N \<and> (duplex_step ^^ (N - k)) d' d"
    and "m_files (right_machine d) = (m_files (demo_machine Map.empty))(''./received/'' @ base_name ''f'' \<mapsto> [7])"
    using transfer_delivers [where H = zero_digest and f = 8 and g = 9 and rm = "demo_machine Map.empty", OF len here]
    by (auto simp: base chunk_count_def)
  then have "m_files (right_machine d) ''./received/f'' = Some [7]" by (simp add: base)
  with * show ?thesis by blast
qed

end
