(* ===== verification/P2P.thy ===== *)
theory P2P
  imports Go_IO
begin

text \<open>
  The libp2p side of the programs (\<^verbatim>\<open>src/P2P/host.go\<close>): the identity of a host and its file, the relay
  addresses, the construction of a host with its relay reservations, the renewal of a reservation,
  the kind of the connections to a peer and the goroutine that watches for the upgrade of a relayed
  connection to a direct one. The libp2p library itself is a parameter (\<open>libp2p\<close>) or answers requests.
\<close>

section \<open>The library and the calls of the set-up code\<close>

text \<open>The pure functions of the library the program calls.\<close>

record libp2p =
  NewMultiaddr :: "string \<Rightarrow> Multiaddr go_result"
  AddrInfoFromP2pAddr :: "Multiaddr \<Rightarrow> AddrInfo go_result"
  MarshalPrivateKey :: "PrivKey \<Rightarrow> bytes go_result"
  UnmarshalPrivateKey :: "bytes \<Rightarrow> PrivKey go_result"

text \<open>What the program relies on: a marshalled key is read back, \<^verbatim>\<open>MarshalPrivateKey\<close>'s inverse.\<close>

definition marshal_inverse :: "libp2p \<Rightarrow> bool" where
  "marshal_inverse lib \<longleftrightarrow>
     (\<forall>k d. MarshalPrivateKey lib k = Inr d \<longrightarrow> UnmarshalPrivateKey lib d = Inr k)"

definition ReadFile :: "string \<Rightarrow> bytes go_result io" where
  "ReadFile p = Act (QReadFile p) (\<lambda>r. Ret (reply_bytes r))"

definition WriteFile :: "string \<Rightarrow> bytes \<Rightarrow> nat \<Rightarrow> unit go_result io" where
  "WriteFile p d perm = Act (QWriteFile p d perm) (\<lambda>r. Ret (reply_unit r))"

definition GenerateKeyPair :: "PrivKey go_result io" where
  "GenerateKeyPair = Act QGenerateKeyPair (\<lambda>r. Ret (reply_bytes r))"

definition Getenv :: "string \<Rightarrow> string io" where
  "Getenv n = Act (QGetenv n) (\<lambda>r. Ret (bytes_str (r_bytes r)))"

definition Go :: "goroutine \<Rightarrow> unit io" where
  "Go g = Act (QGo g) (\<lambda>_. Ret ())"

definition Connect :: "AddrInfo \<Rightarrow> unit go_result io" where
  "Connect info = Act (QConnect info) (\<lambda>r. Ret (reply_unit r))"

definition Reserve :: "AddrInfo \<Rightarrow> int go_result io" where
  "Reserve info = Act (QReserve info) (\<lambda>r. Ret
     (case r_err r of Some e \<Rightarrow> Inl e | None \<Rightarrow> Inr (r_num r)))"

text \<open>A host is known by its ID (\<^verbatim>\<open>h.ID()\<close>); a process has one host.\<close>

definition libp2p_New :: "host_option list \<Rightarrow> peer_ID go_result io" where
  "libp2p_New opts = Act (QHostNew opts) (\<lambda>r. Ret
     (case r_err r of Some e \<Rightarrow> Inl e | None \<Rightarrow> Inr (bytes_str (r_bytes r))))"

definition HostAddrs :: "Multiaddr list io" where
  "HostAddrs = Act QHostAddrs (\<lambda>r. Ret (r_strs r))"

definition HostClose :: "unit io" where
  "HostClose = Act QHostClose (\<lambda>_. Ret ())"

definition NewStream :: "peer_ID \<Rightarrow> string \<Rightarrow> unit go_result io" where
  "NewStream p protocol = Act (QNewStream p protocol) (\<lambda>r. Ret (reply_unit r))"

definition SetStreamHandler :: "string \<Rightarrow> unit io" where
  "SetStreamHandler protocol = Act (QSetStreamHandler protocol) (\<lambda>_. Ret ())"

definition Notify :: "unit io" where
  "Notify = Act QNotify (\<lambda>_. Ret ())"

definition Sleep :: "int \<Rightarrow> unit io" where
  "Sleep d = Act (QSleep d) (\<lambda>_. Ret ())"

text \<open>The receipt of a signal from the channel of \<^verbatim>\<open>signal.Notify\<close>, with its name.\<close>

definition WaitSignal :: "string io" where
  "WaitSignal = Act QSignal (\<lambda>r. Ret (bytes_str (r_bytes r)))"

lemmas p2p_call_defs =
  ReadFile_def WriteFile_def GenerateKeyPair_def Getenv_def Printf_nl_def Println_def Logf_def Go_def
  Connect_def Reserve_def libp2p_New_def HostAddrs_def HostClose_def NewStream_def SetStreamHandler_def
  Notify_def Sleep_def WaitSignal_def reply_bytes_def reply_unit_def

text \<open>The idiom \<^verbatim>\<open>x, err := m; if err != nil { log.Fatal(msg, err) }; f(x)\<close> of the main functions.\<close>

definition or_fatal :: "'a go_result io \<Rightarrow> string \<Rightarrow> ('a \<Rightarrow> 'b io) \<Rightarrow> 'b io" where
  "or_fatal m msg f = io_bind m (\<lambda>r. case r of Inl err \<Rightarrow> Halt (Fatal msg err) | Inr x \<Rightarrow> f x)"

text \<open>An em dash, as the log lines have it, in UTF-8.\<close>

definition em_dash :: string where
  "em_dash = map char_of [226, 128, 148 :: nat]"

section \<open>Identity\<close>

definition ProtocolID :: string where
  "ProtocolID = ''/file-transfer/1.0.0''"

text \<open>The permission \<^verbatim>\<open>0600\<close> in octal.\<close>

definition LoadOrCreateIdentity :: "libp2p \<Rightarrow> string \<Rightarrow> PrivKey go_result io" where
  "LoadOrCreateIdentity lib keyPath =
     io_bind (ReadFile keyPath) (\<lambda>r. case r of
       Inr data \<Rightarrow> Ret (UnmarshalPrivateKey lib data)
     | Inl _ \<Rightarrow>
         io_try GenerateKeyPair Inl (\<lambda>priv.
         io_try (Ret (MarshalPrivateKey lib priv)) Inl (\<lambda>data.
         io_try (WriteFile keyPath data (6 * 8 * 8)) Inl (\<lambda>_.
         Ret (Inr priv)))))"

definition GenerateEphemeralIdentity :: "PrivKey go_result io" where
  "GenerateEphemeralIdentity = GenerateKeyPair"

section \<open>Relay addresses\<close>

fun relay_infos :: "libp2p \<Rightarrow> string list \<Rightarrow> AddrInfo list \<Rightarrow> AddrInfo list go_result" where
  "relay_infos lib [] infos = Inr infos"
| "relay_infos lib (a # as) infos =
     (case NewMultiaddr lib a of
        Inl err \<Rightarrow> Inl (Errorf ''invalid relay multiaddr %q: %w'' [AStr a, AErr err])
      | Inr maddr \<Rightarrow>
          (case AddrInfoFromP2pAddr lib maddr of
             Inl err \<Rightarrow> Inl (Errorf ''relay multiaddr %q is missing /p2p/<PeerID>: %w'' [AStr a, AErr err])
           | Inr info \<Rightarrow> relay_infos lib as (infos @ [info])))"

definition StaticRelayAddrs :: "libp2p \<Rightarrow> string list \<Rightarrow> AddrInfo list go_result" where
  "StaticRelayAddrs lib addrs = relay_infos lib addrs []"

definition CircuitAddr :: "AddrInfo \<Rightarrow> peer_ID \<Rightarrow> string" where
  "CircuitAddr relay self =
     (case ai_Addrs relay of
        [] \<Rightarrow> []
      | a # _ \<Rightarrow> a @ ''/p2p/'' @ ai_ID relay @ ''/p2p-circuit/p2p/'' @ self)"

definition ClientListenAddrs :: "string list" where
  "ClientListenAddrs = [''/ip4/0.0.0.0/tcp/0'', ''/ip4/0.0.0.0/udp/0/quic-v1'']"

section \<open>A host\<close>

definition LogIdentifyEvents :: "unit io" where
  "LogIdentifyEvents = Act QSubscribe (\<lambda>r. case r_err r of
       Some err \<Rightarrow> Logf ''[identify] couldn't subscribe: %v'' [AErr err]
     | None \<Rightarrow> Go GoIdentifyLog)"

text \<open>What the goroutine \<open>GoIdentifyLog\<close> writes for the events it receives.\<close>

definition identify_log :: "(peer_ID \<times> Multiaddr list) list \<Rightarrow> (string \<times> go_arg list) list" where
  "identify_log evts =
     map (\<lambda>(p, addrs). (''[identify] completed with %s '' @ em_dash @ '' they report listen addrs: %v'',
       [AStr p, AStrs addrs])) evts"

definition host_opts :: "PrivKey \<Rightarrow> string list \<Rightarrow> host_option list" where
  "host_opts priv listenAddrs =
     [Identity priv, NATPortMap, EnableRelay, Transport ''tcp'', Transport ''quic'', Transport ''websocket'',
      EnableHolePunching] @
     (if listenAddrs \<noteq> [] then [ListenAddrStrings listenAddrs] else [NoListenAddrs])"

fun reserve_relays :: "AddrInfo list \<Rightarrow> unit io" where
  "reserve_relays [] = Ret ()"
| "reserve_relays (relay # relays) =
     io_bind (Connect relay) (\<lambda>r. case r of
       Inl err \<Rightarrow>
         io_bind (Printf_nl ''could not connect to relay %s: %v'' [AStr (ai_ID relay), AErr err]) (\<lambda>_.
         reserve_relays relays)
     | Inr _ \<Rightarrow> io_bind (Reserve relay) (\<lambda>r. case r of
         Inl err \<Rightarrow>
           io_bind (Printf_nl ''could not reserve slot on relay %s: %v'' [AStr (ai_ID relay), AErr err]) (\<lambda>_.
           reserve_relays relays)
       | Inr expiration \<Rightarrow>
           io_bind (Printf_nl ''reserved a slot on relay %s (expires %s)'' [AStr (ai_ID relay), ATime expiration]) (\<lambda>_.
           io_bind (Go (GoKeepReservationAlive relay expiration)) (\<lambda>_.
           reserve_relays relays))))"

definition NewHost :: "PrivKey \<Rightarrow> string list \<Rightarrow> AddrInfo list \<Rightarrow> peer_ID go_result io" where
  "NewHost priv listenAddrs staticRelays =
     io_try (libp2p_New (host_opts priv listenAddrs)) Inl (\<lambda>h.
     io_bind LogIdentifyEvents (\<lambda>_.
     io_bind (reserve_relays staticRelays) (\<lambda>_.
     Ret (Inr h))))"

text \<open>The loop with which server and relay print the addresses of their host.\<close>

fun print_addrs :: "Multiaddr list \<Rightarrow> peer_ID \<Rightarrow> unit io" where
  "print_addrs [] h = Ret ()"
| "print_addrs (addr # addrs) h =
     io_bind (Printf_nl ''  %s/p2p/%s'' [AStr addr, AStr h]) (\<lambda>_. print_addrs addrs h)"

section \<open>Renewing a reservation\<close>

text \<open>
  A \<^verbatim>\<open>time.Duration\<close> is a signed 64-bit number of nanoseconds; \<^verbatim>\<open>time.Until\<close> saturates, the
  subtraction wraps around. A round is what the environment does in one turn of the endless loop: by
  how much each sleep is overslept, how long \<^verbatim>\<open>circuit.Reserve\<close> takes and what it returns.
\<close>

definition Second :: int where
  "Second = 1000000000"

definition Until :: "int \<Rightarrow> int \<Rightarrow> u64" where
  "Until t now = word_of_int (max (- (2 ^ 63)) (min (2 ^ 63 - 1) (t - now)))"

definition renewal_wait :: "int \<Rightarrow> int \<Rightarrow> u64" where
  "renewal_wait expiration now =
     (let wait = Until expiration now - word_of_int (30 * Second)
      in if sint wait < 5 * Second then word_of_int (5 * Second) else wait)"

record reservation =
  clock :: int
  expiration :: int
  renewal_log :: "(string \<times> go_arg list) list"

record renewal_round =
  oversleep :: int
  latency :: int
  reserved :: "int go_result"
  oversleep_retry :: int

definition attempt_at :: "reservation \<Rightarrow> renewal_round \<Rightarrow> int" where
  "attempt_at s r = clock s + sint (renewal_wait (expiration s) (clock s)) + oversleep r"

definition renew_round :: "AddrInfo \<Rightarrow> reservation \<Rightarrow> renewal_round \<Rightarrow> reservation" where
  "renew_round relay s r =
     (let t = attempt_at s r + latency r in
      case reserved r of
        Inl err \<Rightarrow>
          s\<lparr>clock := t + 10 * Second + oversleep_retry r,
            renewal_log := renewal_log s @
              [(''[relay] failed to renew reservation on %s: %v '' @ em_dash @ '' will retry shortly'',
                [AStr (ai_ID relay), AErr err])]\<rparr>
      | Inr newRsvp \<Rightarrow>
          s\<lparr>clock := t, expiration := newRsvp,
            renewal_log := renewal_log s @
              [(''[relay] renewed reservation on %s (expires %s)'', [AStr (ai_ID relay), ATime newRsvp])]\<rparr>)"

definition keepReservationAlive :: "AddrInfo \<Rightarrow> int \<Rightarrow> int \<Rightarrow> renewal_round list \<Rightarrow> reservation" where
  "keepReservationAlive relay rsvp now rounds =
     foldl (renew_round relay) \<lparr>clock = now, expiration = rsvp, renewal_log = []\<rparr> rounds"

section \<open>Connections to a peer\<close>

text \<open>\<^verbatim>\<open>strings.Contains\<close>.\<close>

fun contains :: "string \<Rightarrow> string \<Rightarrow> bool" where
  "contains [] sub \<longleftrightarrow> sub = []"
| "contains (c # cs) sub \<longleftrightarrow> take (length sub) (c # cs) = sub \<or> contains cs sub"

definition isRelayedAddr :: "Multiaddr \<Rightarrow> bool" where
  "isRelayedAddr addr = contains addr ''/p2p-circuit''"

datatype ConnKind = NoConn | Relayed | Direct

fun any_direct :: "Multiaddr list \<Rightarrow> bool" where
  "any_direct [] = False"
| "any_direct (c # cs) = (if \<not> isRelayedAddr c then True else any_direct cs)"

text \<open>A \<^verbatim>\<open>ConnKind\<close> is an integer in the source, the better kind the larger one.\<close>

fun conn_rank :: "ConnKind \<Rightarrow> nat" where
  "conn_rank NoConn = 0"
| "conn_rank Relayed = 1"
| "conn_rank Direct = 2"

instantiation ConnKind :: linorder
begin

definition less_eq_ConnKind :: "ConnKind \<Rightarrow> ConnKind \<Rightarrow> bool" where
  "a \<le> b \<longleftrightarrow> conn_rank a \<le> conn_rank b"

definition less_ConnKind :: "ConnKind \<Rightarrow> ConnKind \<Rightarrow> bool" where
  "a < b \<longleftrightarrow> conn_rank a < conn_rank b"

instance
proof
  fix a b :: ConnKind
  show "a = b" if "a \<le> b" "b \<le> a"
    using that by (cases a; cases b) (simp_all add: less_eq_ConnKind_def)
qed (auto simp: less_eq_ConnKind_def less_ConnKind_def)

end

text \<open>\<open>conns\<close>: the remote addresses of the connections \<^verbatim>\<open>h.Network().ConnsToPeer(p)\<close> returns.\<close>

definition connKindToPeer :: "Multiaddr list \<Rightarrow> ConnKind" where
  "connKindToPeer conns =
     (if conns = [] then NoConn else if any_direct conns then Direct else Relayed)"

section \<open>Watching for a direct connection\<close>

text \<open>
  One turn of the watcher's \<^verbatim>\<open>select\<close> per input: the context is done, the deadline or the ticker
  fires; the inputs carry what the host answers then (the connections to the peer, and the
  addresses its peerstore knows). A watcher that has returned takes no more inputs.
\<close>

datatype watch_input =
    CtxDone
  | Deadline "Multiaddr list" "Multiaddr list"
  | Tick "Multiaddr list"

record watcher =
  announcedRelayed :: bool
  watch_log :: "(string \<times> go_arg list) list"
  watch_done :: bool

definition watch_start :: watcher where
  "watch_start = \<lparr>announcedRelayed = False, watch_log = [], watch_done = False\<rparr>"

abbreviation (input) log_line :: "string \<Rightarrow> go_arg list \<Rightarrow> watcher \<Rightarrow> watcher" where
  "log_line fmt args w \<equiv> w\<lparr>watch_log := watch_log w @ [(fmt, args)]\<rparr>"

fun watch_select :: "peer_ID \<Rightarrow> watcher \<Rightarrow> watch_input \<Rightarrow> watcher" where
  "watch_select p w CtxDone = w\<lparr>watch_done := True\<rparr>"
| "watch_select p w (Deadline conns known) =
     (if \<not> announcedRelayed w then w\<lparr>watch_done := True\<rparr>
      else
        let w = (if connKindToPeer conns \<noteq> Direct then
                   log_line ''[holepunch] known/observed addresses for %s: %v'' [AStr p, AStrs known]
                     (log_line ''[holepunch] timed out waiting for a direct connection to %s; staying on relayed connection''
                       [AStr p] w)
                 else w)
        in w\<lparr>watch_done := True\<rparr>)"
| "watch_select p w (Tick conns) =
     (case connKindToPeer conns of
        Relayed \<Rightarrow>
          if \<not> announcedRelayed w then
            log_line ''[holepunch] StartHolePunch: connected to %s via relay, attempting direct upgrade...''
              [AStr p] (w\<lparr>announcedRelayed := True\<rparr>)
          else w
      | Direct \<Rightarrow>
          let w = (if announcedRelayed w then
                     log_line (''[holepunch] EndHolePunch: direct connection to %s established '' @ em_dash @
                       '' relay is now out of the data path for this session'') [AStr p] w
                   else log_line ''[holepunch] connected to %s directly (no relay hop needed)'' [AStr p] w)
          in w\<lparr>watch_done := True\<rparr>
      | NoConn \<Rightarrow> w)"

definition watch_turn :: "peer_ID \<Rightarrow> watcher \<Rightarrow> watch_input \<Rightarrow> watcher" where
  "watch_turn p w i = (if watch_done w then w else watch_select p w i)"

definition WatchForDirectUpgrade :: "peer_ID \<Rightarrow> watch_input list \<Rightarrow> watcher" where
  "WatchForDirectUpgrade p inputs = foldl (watch_turn p) watch_start inputs"

section \<open>Executing a main function\<close>

lemma or_fatal_simps [simp]:
  "or_fatal (Ret (Inr x)) msg f = f x" "or_fatal (Ret (Inl e)) msg f = Halt (Fatal msg e)"
  "or_fatal (Act q k) msg f = Act q (\<lambda>r. or_fatal (k r) msg f)"
  by (simp_all add: or_fatal_def)

lemma exec_bind_run: "exec p es = Some (Ret x) \<Longrightarrow> exec (io_bind p f) es = Some (f x)"
  by (induction p es rule: exec.induct) (auto split: io.splits if_splits)

lemma exec_or_fatal:
  "exec m es = Some (Ret (Inr x)) \<Longrightarrow> exec (or_fatal m msg f) (es @ fs) = exec (f x) fs"
  by (simp add: or_fatal_def exec_append exec_bind_run)

lemma wph_or_fatal:
  fixes f :: "'a \<Rightarrow> 'b io"
  shows "wph X \<delta> (or_fatal m msg f) Q st =
     wph X \<delta> m (\<lambda>r. case r of Inl e \<Rightarrow> X (Fatal msg e) | Inr x \<Rightarrow> wph X \<delta> (f x) Q) st"
proof -
  have "(\<lambda>r :: 'a go_result. wph X \<delta> (case r of Inl err \<Rightarrow> Halt (Fatal msg err) | Inr x \<Rightarrow> f x) Q) =
      (\<lambda>r. case r of Inl e \<Rightarrow> X (Fatal msg e) | Inr x \<Rightarrow> wph X \<delta> (f x) Q)"
    by (simp add: fun_eq_iff split: sum.split)
  then show ?thesis by (simp add: or_fatal_def wp_bind)
qed

text \<open>The lines that list the addresses of a host.\<close>

definition addr_lines :: "Multiaddr list \<Rightarrow> peer_ID \<Rightarrow> event list" where
  "addr_lines addrs h = map (\<lambda>a. (QPrintf (''  %s/p2p/%s'' @ [CHR 0x0A]) [AStr a, AStr h], Reply None [] 0)) addrs"

lemma exec_print_addrs: "exec (io_bind (print_addrs addrs h) f) (addr_lines addrs h @ es) = exec (f ()) es"
  by (induction addrs) (simp_all add: addr_lines_def Printf_nl_def)

section \<open>The identity survives a restart\<close>

text \<open>
  The disk behind \<open>QReadFile\<close> and \<open>QWriteFile\<close>: a read delivers what was written last. A failed write
  may leave anything, so the monitor describes only executions without one.
\<close>

fun disk :: "(string \<rightharpoonup> bytes) \<Rightarrow> event \<Rightarrow> (string \<rightharpoonup> bytes) option" where
  "disk fs (QReadFile p, r) =
     (case fs p of
        Some d \<Rightarrow> if r_err r = None \<and> r_bytes r = d then Some fs else None
      | None \<Rightarrow> if r_err r \<noteq> None then Some fs else None)"
| "disk fs (QWriteFile p d perm, r) = (if r_err r = None then Some (fs(p \<mapsto> d)) else None)"
| "disk fs _ = Some fs"

lemma identity_run:
  assumes "exec (LoadOrCreateIdentity lib p) es = Some (Ret res)" and "mon_run disk fs es = Some fs'"
  shows "case fs p of
      Some d \<Rightarrow> res = UnmarshalPrivateKey lib d \<and> fs' = fs
    | None \<Rightarrow> (\<forall>k. res = Inr k \<longrightarrow> (\<exists>d. MarshalPrivateKey lib k = Inr d \<and> fs' = fs(p \<mapsto> d)))"
  using assms
  by (auto simp: LoadOrCreateIdentity_def p2p_call_defs io_try_def exec_Act_Ret exec_Ret_Ret
      split: option.splits sum.splits if_splits)
    (rename_tac r2 y k, case_tac "MarshalPrivateKey lib (r_bytes r2)", auto split: if_splits)


section \<open>The reservations of a new host\<close>

text \<open>
  Read off an execution: the relays it tried to connect to, those that accepted, the slots granted,
  and the reservations it keeps renewing.
\<close>

fun tried :: "event list \<Rightarrow> AddrInfo list" where
  "tried [] = []"
| "tried ((QConnect relay, r) # es) = relay # tried es"
| "tried (e # es) = tried es"

fun connected :: "event list \<Rightarrow> AddrInfo list" where
  "connected [] = []"
| "connected ((QConnect relay, r) # es) = (if r_err r = None then [relay] else []) @ connected es"
| "connected (e # es) = connected es"

fun granted :: "event list \<Rightarrow> (AddrInfo \<times> int) list" where
  "granted [] = []"
| "granted ((QReserve relay, r) # es) = (if r_err r = None then [(relay, r_num r)] else []) @ granted es"
| "granted (e # es) = granted es"

fun kept :: "event list \<Rightarrow> (AddrInfo \<times> int) list" where
  "kept [] = []"
| "kept ((QGo (GoKeepReservationAlive relay t), r) # es) = (relay, t) # kept es"
| "kept (e # es) = kept es"

fun asked :: "event list \<Rightarrow> AddrInfo list" where
  "asked [] = []"
| "asked ((QReserve relay, r) # es) = relay # asked es"
| "asked (e # es) = asked es"

lemma reserve_relays_run:
  "exec (reserve_relays relays) es = Some (Ret ()) \<Longrightarrow>
   tried es = relays \<and> asked es = connected es \<and> kept es = granted es"
proof (induction relays arbitrary: es)
  case Nil
  then show ?case by (simp add: exec_Ret_Ret)
next
  case (Cons relay relays)
  then show ?case
    by (auto simp: p2p_call_defs exec_Act_Ret exec_Ret_Ret split: option.splits)
qed

lemma at_most_reserve_relays: "at_most (reserve_relays relays) (4 * length relays)"
proof (induction relays)
  case (Cons relay relays)
  then have "at_most (reserve_relays relays) n" if "4 * length relays \<le> n" for n
    using that by (rule at_most_mono)
  then show ?case by (auto simp: p2p_call_defs split: option.split)
qed simp

text \<open>C32: a new host and its reservations. \<^verbatim>\<open>NewHost\<close> returns after at most three calls and four for each
  relay; a host that could be made (with exactly the given listen addresses, or none) has tried every
  relay of the list in order, whatever became of the others, has asked for a slot at exactly those it
  connected to, and keeps renewing exactly the reservations it was granted. Only the library's
  refusal to make a host is an error.\<close>

theorem NewHost_reservations:
  "at_most (NewHost priv listenAddrs relays) (3 + 4 * length relays) \<and>
   (exec (NewHost priv listenAddrs relays) es = Some (Ret (Inr h)) \<longrightarrow>
      fst (hd es) = QHostNew (host_opts priv listenAddrs) \<and>
      tried es = relays \<and> asked es = connected es \<and> kept es = granted es) \<and>
   (exec (NewHost priv listenAddrs relays) es = Some (Ret (Inl err)) \<longrightarrow>
      (\<exists>r. es = [(QHostNew (host_opts priv listenAddrs), r)] \<and> r_err r = Some err))"
proof (intro conjI impI)
  have "at_most LogIdentifyEvents 2"
    by (auto simp: LogIdentifyEvents_def p2p_call_defs split: option.split)
  then have "at_most (io_bind LogIdentifyEvents (\<lambda>_. io_bind (reserve_relays relays) (\<lambda>_. Ret (Inr h))))
      (2 + (4 * length relays + 0))" for h :: peer_ID
    by (intro at_most_bind at_most_reserve_relays) simp_all
  then show "at_most (NewHost priv listenAddrs relays) (3 + 4 * length relays)"
    unfolding NewHost_def by (intro at_most_try [where m = 1]) (simp_all add: p2p_call_defs)
next
  assume "exec (NewHost priv listenAddrs relays) es = Some (Ret (Inr h))"
  then obtain r es' h' where es: "es = (QHostNew (host_opts priv listenAddrs), r) # es'"
    and "exec (io_bind LogIdentifyEvents (\<lambda>_. io_bind (reserve_relays relays) (\<lambda>_. Ret (Inr h')))) es' =
      Some (Ret (Inr h :: peer_ID go_result))"
    by (auto simp: NewHost_def io_try_def p2p_call_defs exec_Act_Ret exec_Ret_Ret split: option.splits)
  then obtain xs ys zs where es': "es' = xs @ ys @ zs" and log: "exec LogIdentifyEvents xs = Some (Ret ())"
    and relays: "exec (reserve_relays relays) ys = Some (Ret ())" and "zs = []"
    by (auto simp: exec_Ret_Ret dest!: exec_bind_Ret)
  from log have "tried (xs @ ys) = tried ys" "asked (xs @ ys) = asked ys" "connected (xs @ ys) = connected ys"
    "kept (xs @ ys) = kept ys" "granted (xs @ ys) = granted ys"
    by (auto simp: LogIdentifyEvents_def p2p_call_defs exec_Act_Ret exec_Ret_Ret split: option.splits)
  with es es' \<open>zs = []\<close> reserve_relays_run [OF relays]
  show "fst (hd es) = QHostNew (host_opts priv listenAddrs)" "tried es = relays" "asked es = connected es"
    "kept es = granted es" by simp_all
next
  assume "exec (NewHost priv listenAddrs relays) es = Some (Ret (Inl err))"
  then show "\<exists>r. es = [(QHostNew (host_opts priv listenAddrs), r)] \<and> r_err r = Some err"
    by (auto simp: NewHost_def io_try_def p2p_call_defs exec_Act_Ret exec_Ret_Ret
        split: option.splits dest!: exec_bind_Ret)
qed

section \<open>The reservation is renewed in time\<close>

lemma sint_word64: "- (2 ^ 63) \<le> i \<Longrightarrow> i < 2 ^ 63 \<Longrightarrow> sint (word_of_int i :: u64) = i"
  by (simp add: sint_sbintrunc' signed_take_bit_int_eq_self)

lemma renewal_wait_value:
  assumes "- (2 ^ 62) \<le> t - now"
  shows "sint (renewal_wait t now) = max (5 * Second) (min (2 ^ 63 - 1) (t - now) - 30 * Second)"
proof -
  let ?d = "max (- (2 ^ 63)) (min (2 ^ 63 - 1) (t - now))"
  have w: "Until t now - word_of_int (30 * Second) = word_of_int (?d - 30 * Second)"
    by (simp add: Until_def)
  have s: "sint (Until t now - word_of_int (30 * Second)) = ?d - 30 * Second"
    unfolding w by (rule sint_word64) (use assms in \<open>simp_all add: Second_def\<close>)
  have five: "sint (word_of_int (5 * Second) :: u64) = 5 * Second"
    by (rule sint_word64) (simp_all add: Second_def)
  show ?thesis
    unfolding renewal_wait_def Let_def if_distrib [of sint] s five using assms by auto
qed

text \<open>
  What a round may do: sleeps are never too short, and the context given to \<^verbatim>\<open>circuit.Reserve\<close> ends
  it after 15 seconds. A relay that grants a slot grants it for 35 seconds or more.
\<close>

definition round_ok :: "reservation \<Rightarrow> renewal_round \<Rightarrow> bool" where
  "round_ok s r \<longleftrightarrow>
     0 \<le> oversleep r \<and> 0 \<le> latency r \<and> latency r \<le> 15 * Second \<and> 0 \<le> oversleep_retry r \<and>
     (case reserved r of Inr e \<Rightarrow> attempt_at s r + latency r + 35 * Second \<le> e | Inl _ \<Rightarrow> True)"

text \<open>Every renewal of these rounds is complete before the reservation it renews has expired.\<close>

fun renewed_in_time :: "AddrInfo \<Rightarrow> reservation \<Rightarrow> renewal_round list \<Rightarrow> bool" where
  "renewed_in_time relay s [] \<longleftrightarrow> True"
| "renewed_in_time relay s (r # rs) \<longleftrightarrow>
     (case reserved r of Inr _ \<Rightarrow> attempt_at s r + latency r \<le> expiration s | Inl _ \<Rightarrow> True) \<and>
     renewed_in_time relay (renew_round relay s r) rs"

text \<open>
  The rounds a reservation survives: each renewal succeeds at once with at most 15 seconds of
  oversleeping, or at the second attempt when all delays together are at most 15 seconds.
\<close>

fun calm :: "AddrInfo \<Rightarrow> reservation \<Rightarrow> renewal_round list \<Rightarrow> bool" where
  "calm relay s [] \<longleftrightarrow> True"
| "calm relay s (r # rs) \<longleftrightarrow>
     round_ok s r \<and>
     (case reserved r of
        Inr _ \<Rightarrow> oversleep r \<le> 15 * Second \<and> calm relay (renew_round relay s r) rs
      | Inl _ \<Rightarrow>
          (case rs of
             [] \<Rightarrow> True
           | r' # rs' \<Rightarrow>
               (let s' = renew_round relay s r in
                round_ok s' r' \<and> (case reserved r' of Inr _ \<Rightarrow> True | Inl _ \<Rightarrow> False) \<and>
                oversleep r + latency r + oversleep_retry r + oversleep r' + latency r' \<le> 15 * Second \<and>
                calm relay (renew_round relay s' r') rs')))"

lemma renew_round_simps:
  "reserved r = Inr e \<Longrightarrow> clock (renew_round relay s r) = attempt_at s r + latency r"
  "reserved r = Inr e \<Longrightarrow> expiration (renew_round relay s r) = e"
  "reserved r = Inl x \<Longrightarrow> clock (renew_round relay s r) = attempt_at s r + latency r + 10 * Second + oversleep_retry r"
  "reserved r = Inl x \<Longrightarrow> expiration (renew_round relay s r) = expiration s"
  by (simp_all add: renew_round_def Let_def)

text \<open>When an attempt is made, as long as the reservation has not been lost for years.\<close>

lemma attempt_at_value:
  assumes "- (2 ^ 62) \<le> expiration s - clock s"
  shows "attempt_at s r = clock s + max (5 * Second) (min (2 ^ 63 - 1) (expiration s - clock s) - 30 * Second) + oversleep r"
  by (simp add: attempt_at_def renewal_wait_value [OF assms])

lemma attempt_early:
  assumes "35 * Second \<le> expiration s - clock s"
  shows "attempt_at s r \<le> expiration s - 30 * Second + oversleep r" and "clock s + 5 * Second + oversleep r \<le> attempt_at s r"
  using assms by (subst attempt_at_value; simp add: Second_def)+

lemma attempt_again:
  assumes "expiration s - clock s \<le> 35 * Second" and "- (2 ^ 62) \<le> expiration s - clock s"
  shows "attempt_at s r = clock s + 5 * Second + oversleep r"
  using assms by (subst attempt_at_value) (simp_all add: Second_def)

text \<open>The second attempt, when the first has failed.\<close>

lemma attempt_second:
  assumes "35 * Second \<le> expiration s - clock s" and "reserved r = Inl x"
    and "round_ok s r" and "round_ok (renew_round relay s r) r'"
    and "oversleep r + latency r + oversleep_retry r + oversleep r' + latency r' \<le> 15 * Second"
  shows "attempt_at (renew_round relay s r) r' + latency r' \<le> expiration s"
proof -
  let ?s = "renew_round relay s r"
  have exp: "expiration ?s = expiration s" using assms(2) by (simp add: renew_round_simps)
  have clk: "clock ?s \<le> expiration s - 20 * Second + oversleep r + latency r + oversleep_retry r"
    using attempt_early(1) [OF assms(1), of r] assms(2) by (simp add: renew_round_simps)
  show ?thesis
  proof (cases "35 * Second \<le> expiration ?s - clock ?s")
    case True
    with attempt_early(1) [OF this, of r'] assms(3-5) exp show ?thesis by (simp add: round_ok_def Second_def)
  next
    case False
    moreover have "- (2 ^ 62) \<le> expiration ?s - clock ?s"
      using clk exp assms(3-5) by (simp add: round_ok_def Second_def)
    ultimately have "attempt_at ?s r' = clock ?s + 5 * Second + oversleep r'"
      by (intro attempt_again) simp_all
    with clk assms(5) show ?thesis by simp
  qed
qed

lemma calm_renewed_in_time:
  "calm relay s rs \<Longrightarrow> 35 * Second \<le> expiration s - clock s \<Longrightarrow> renewed_in_time relay s rs"
proof (induction relay s rs rule: calm.induct)
  case (2 relay s r rs)
  show ?case
  proof (cases "reserved r")
    case (Inr e)
    then have "renewed_in_time relay (renew_round relay s r) rs"
      using 2 by (auto simp: round_ok_def renew_round_simps)
    with Inr 2 attempt_early(1) [OF 2(4), of r] show ?thesis by (auto simp: round_ok_def)
  next
    case (Inl x)
    show ?thesis
    proof (cases rs)
      case Nil
      with Inl show ?thesis by simp
    next
      case (Cons r' rs')
      let ?s = "renew_round relay s r"
      from 2(3) Inl Cons have ok: "round_ok s r" "round_ok ?s r'" and "\<exists>e. reserved r' = Inr e"
        and delays: "oversleep r + latency r + oversleep_retry r + oversleep r' + latency r' \<le> 15 * Second"
        and rest: "calm relay (renew_round relay ?s r') rs'"
        by (auto simp: Let_def split: sum.splits)
      then obtain e where e: "reserved r' = Inr e" by blast
      have "attempt_at ?s r' + latency r' \<le> expiration s"
        using attempt_second [OF 2(4) Inl ok delays] .
      moreover have "renewed_in_time relay (renew_round relay ?s r') rs'"
        using 2(1) [OF Inl Cons refl rest] ok e by (simp add: round_ok_def renew_round_simps)
      ultimately show ?thesis using Inl Cons e by (simp add: renew_round_simps)
    qed
  qed
qed simp

lemma renewed_in_time_nth:
  assumes "renewed_in_time relay s rs" and "n < length rs" and "reserved (rs ! n) = Inr e"
  shows "attempt_at (foldl (renew_round relay) s (take n rs)) (rs ! n) + latency (rs ! n)
    \<le> expiration (foldl (renew_round relay) s (take n rs))"
  using assms
proof (induction rs arbitrary: s n)
  case (Cons r rs)
  then show ?case by (cases n) simp_all
qed simp

lemma renewal_wait_least: "5 * Second \<le> sint (renewal_wait t now)"
proof -
  have five: "sint (word_of_int (5 * Second) :: u64) = 5 * Second"
    by (rule sint_word64) (simp_all add: Second_def)
  show ?thesis unfolding renewal_wait_def Let_def if_distrib [of sint] five by auto
qed


section \<open>Connection kinds\<close>

lemma contains_iff: "contains s sub \<longleftrightarrow> (\<exists>a b. s = a @ sub @ b)"
proof (induction s)
  case (Cons c s)
  have "take (length sub) (c # s) = sub \<longleftrightarrow> (\<exists>b. c # s = sub @ b)"
    by (metis append_eq_conv_conj append_take_drop_id)
  moreover have "(\<exists>a b. c # s = a @ sub @ b) \<longleftrightarrow> (\<exists>b. c # s = sub @ b) \<or> (\<exists>a b. s = a @ sub @ b)"
    by (auto simp: Cons_eq_append_conv)
  ultimately show ?case using Cons.IH by auto
qed auto

lemma any_direct_iff: "any_direct conns \<longleftrightarrow> (\<exists>c\<in>set conns. \<not> isRelayedAddr c)"
  by (induction conns) auto

lemma connKindToPeer_iff:
  "connKindToPeer conns = Direct \<longleftrightarrow> (\<exists>c\<in>set conns. \<not> isRelayedAddr c)"
  "connKindToPeer conns = Relayed \<longleftrightarrow> conns \<noteq> [] \<and> (\<forall>c\<in>set conns. isRelayedAddr c)"
  "connKindToPeer conns = NoConn \<longleftrightarrow> conns = []"
  by (auto simp: connKindToPeer_def any_direct_iff)

text \<open>The kind reported is the best one of the connections.\<close>

definition addr_kind :: "Multiaddr \<Rightarrow> ConnKind" where
  "addr_kind a = (if isRelayedAddr a then Relayed else Direct)"

lemma connKindToPeer_best: "connKindToPeer conns = Max (insert NoConn (addr_kind ` set conns))"
proof (rule sym, rule Max_eqI)
  show "k \<le> connKindToPeer conns" if "k \<in> insert NoConn (addr_kind ` set conns)" for k
    using that by (auto simp: connKindToPeer_def any_direct_iff addr_kind_def less_eq_ConnKind_def)
  show "connKindToPeer conns \<in> insert NoConn (addr_kind ` set conns)"
  proof (cases "connKindToPeer conns")
    case Direct
    then obtain c where "c \<in> set conns" "addr_kind c = Direct" by (auto simp: connKindToPeer_iff addr_kind_def)
    with Direct show ?thesis by (metis imageI insertCI)
  next
    case Relayed
    then have "hd conns \<in> set conns" "addr_kind (hd conns) = Relayed" by (simp_all add: connKindToPeer_iff addr_kind_def)
    with Relayed show ?thesis by (metis imageI insertCI)
  qed simp
qed simp

lemma CircuitAddr_relayed: "CircuitAddr relay self \<noteq> [] \<Longrightarrow> isRelayedAddr (CircuitAddr relay self)"
proof -
  assume "CircuitAddr relay self \<noteq> []"
  then obtain a as where "ai_Addrs relay = a # as" by (auto simp: CircuitAddr_def split: list.splits)
  then have "CircuitAddr relay self = (a @ ''/p2p/'' @ ai_ID relay) @ ''/p2p-circuit'' @ (''/p2p/'' @ self)"
    by (simp add: CircuitAddr_def)
  then show ?thesis unfolding isRelayedAddr_def contains_iff by blast
qed

section \<open>What the watcher promises\<close>

text \<open>
  The abstract watcher: what has become of the connection, as far as it has been observed. It knows
  connection kinds, not addresses, and keeps no log; a state other than the first two is final.
\<close>

datatype observation = Cancelled | TimeUp ConnKind "Multiaddr list" | Saw ConnKind

datatype upgrade =
    Unseen
  | OnRelay
  | Upgraded
  | DirectAtOnce
  | StayedRelayed "Multiaddr list"
  | Ended bool

fun upgrade_next :: "upgrade \<Rightarrow> observation \<Rightarrow> upgrade" where
  "upgrade_next Unseen (Saw Relayed) = OnRelay"
| "upgrade_next Unseen (Saw Direct) = DirectAtOnce"
| "upgrade_next Unseen (Saw NoConn) = Unseen"
| "upgrade_next Unseen Cancelled = Ended False"
| "upgrade_next Unseen (TimeUp _ _) = Ended False"
| "upgrade_next OnRelay (Saw Direct) = Upgraded"
| "upgrade_next OnRelay (Saw _) = OnRelay"
| "upgrade_next OnRelay Cancelled = Ended True"
| "upgrade_next OnRelay (TimeUp k known) = (if k = Direct then Ended True else StayedRelayed known)"
| "upgrade_next u _ = u"

fun observed_kind :: "watch_input \<Rightarrow> observation" where
  "observed_kind CtxDone = Cancelled"
| "observed_kind (Deadline conns known) = TimeUp (connKindToPeer conns) known"
| "observed_kind (Tick conns) = Saw (connKindToPeer conns)"

text \<open>The log that goes with each state, and the watcher that is in it.\<close>

definition start_line :: "peer_ID \<Rightarrow> string \<times> go_arg list" where
  "start_line p = (''[holepunch] StartHolePunch: connected to %s via relay, attempting direct upgrade...'', [AStr p])"

fun report :: "peer_ID \<Rightarrow> upgrade \<Rightarrow> (string \<times> go_arg list) list" where
  "report p Unseen = []"
| "report p OnRelay = [start_line p]"
| "report p Upgraded = [start_line p,
     (''[holepunch] EndHolePunch: direct connection to %s established '' @ em_dash @
      '' relay is now out of the data path for this session'', [AStr p])]"
| "report p DirectAtOnce = [(''[holepunch] connected to %s directly (no relay hop needed)'', [AStr p])]"
| "report p (StayedRelayed known) = [start_line p,
     (''[holepunch] timed out waiting for a direct connection to %s; staying on relayed connection'', [AStr p]),
     (''[holepunch] known/observed addresses for %s: %v'', [AStr p, AStrs known])]"
| "report p (Ended on_relay) = (if on_relay then [start_line p] else [])"

definition watcher_in :: "peer_ID \<Rightarrow> upgrade \<Rightarrow> watcher" where
  "watcher_in p u =
     \<lparr>announcedRelayed = (u \<notin> {Unseen, DirectAtOnce, Ended False}), watch_log = report p u,
      watch_done = (u \<notin> {Unseen, OnRelay})\<rparr>"

lemma watch_turn_refines: "watch_turn p (watcher_in p u) i = watcher_in p (upgrade_next u (observed_kind i))"
  by (cases u; cases i)
    (auto simp: watch_turn_def watcher_in_def start_line_def Let_def split: ConnKind.split)

interpretation watch: functional_refinement "watch_turn p" upgrade_next observed_kind "watcher_in p" for p
  by unfold_locales (rule watch_turn_refines)

text \<open>C23: the watcher implements its specification. Whatever its \<^verbatim>\<open>select\<close> receives,
  \<^verbatim>\<open>WatchForDirectUpgrade\<close> is the watcher of the abstract state that the observed connection kinds
  lead to, with exactly the log of that state: one line when a relayed connection is first seen, one
  more when a direct one follows it, and so on.\<close>

theorem watcher_refines:
  "WatchForDirectUpgrade p inputs = watcher_in p (foldl upgrade_next Unseen (map observed_kind inputs))"
proof -
  have start: "watch_start = watcher_in p Unseen" by (simp add: watch_start_def watcher_in_def)
  show ?thesis unfolding WatchForDirectUpgrade_def start by (rule watch.run)
qed

end
