(* ===== verification/Programs.thy ===== *)
theory Programs
  imports Server_Client P2P
begin

text \<open>
  The main functions of server and client (\<^verbatim>\<open>src/Server/server.go\<close>, \<^verbatim>\<open>src/Client/client.go\<close>): arguments,
  identity, relays, host, and then the stream handler of the server and the one stream of the
  client. The lemmas say what the server announces and serves, and what must have succeeded before
  the client says anything on a stream.
\<close>

section \<open>The server\<close>

definition PORT :: string where
  "PORT = ''9001''"

definition server_identityKeyPath :: string where
  "server_identityKeyPath = ''server_identity.key''"

definition server_listen_addrs :: "string list" where
  "server_listen_addrs = [''/ip4/0.0.0.0/tcp/'' @ PORT, ''/ip4/0.0.0.0/udp/'' @ PORT @ ''/quic-v1'']"

text \<open>What the server does when a peer connects; the other notifications are ignored.\<close>

definition connLogger_Connected :: "peer_ID \<Rightarrow> unit io" where
  "connLogger_Connected remotePeer = Go (GoWatch None remotePeer (15 * Second))"

fun print_circuits :: "AddrInfo list \<Rightarrow> peer_ID \<Rightarrow> unit io" where
  "print_circuits [] h = Ret ()"
| "print_circuits (relay # relays) h =
     (let addr = CircuitAddr relay h in
      if addr \<noteq> [] then io_bind (Println [AStr (''  '' @ addr)]) (\<lambda>_. print_circuits relays h)
      else print_circuits relays h)"

definition server_main :: "libp2p \<Rightarrow> unit io" where
  "server_main lib =
     or_fatal (LoadOrCreateIdentity lib server_identityKeyPath) ''couldn't load/create identity: '' (\<lambda>priv.
     io_bind (Getenv ''RELAY_ADDRS'') (\<lambda>csv.
     or_fatal (Ret (StaticRelayAddrs lib (splitNonEmpty csv))) ''bad RELAY_ADDRS: '' (\<lambda>staticRelays.
     or_fatal (NewHost priv server_listen_addrs staticRelays) ''libp2p host creation failed: '' (\<lambda>h.
     io_bind (Println [AStr ''Server PeerID:'', AStr h]) (\<lambda>_.
     io_bind (Println [AStr ''Server is listening on:'']) (\<lambda>_.
     io_bind (Sleep (15 * Second)) (\<lambda>_.
     io_bind HostAddrs (\<lambda>addrs.
     io_bind (print_addrs addrs h) (\<lambda>_.
     io_bind (print_circuits staticRelays h) (\<lambda>_.
     io_bind (Println [AStr (CHR 0x0A # ''Give one of the addresses above (with /p2p/<PeerID>) to the client.'')]) (\<lambda>_.
     io_bind (SetStreamHandler ProtocolID) (\<lambda>_.
     io_bind Notify (\<lambda>_.
     io_bind WaitSignal (\<lambda>sig.
     io_bind (Println [AStr sig]) (\<lambda>_.
     io_bind (Println [AStr (CHR 0x0A # ''Shutting down.'')]) (\<lambda>_.
     HostClose))))))))))))))))"

section \<open>The client\<close>

text \<open>
  \<^verbatim>\<open>strings.ToUpper\<close>: byte by byte on an ASCII string; on other strings it maps code points by the
  Unicode tables, the parameter \<open>unicode_upper\<close>.
\<close>

definition upper_char :: "char \<Rightarrow> char" where
  "upper_char c = (if 97 \<le> (of_char c :: nat) \<and> of_char c \<le> (122 :: nat) then char_of (of_char c - 32 :: nat) else c)"

definition ToUpper :: "(string \<Rightarrow> string) \<Rightarrow> string \<Rightarrow> string" where
  "ToUpper unicode_upper s =
     (if \<forall>c\<in>set s. of_char c < (128 :: nat) then map upper_char s else unicode_upper s)"

definition client_dial :: "digest \<Rightarrow> nat \<Rightarrow> string \<Rightarrow> string \<Rightarrow> AddrInfo \<Rightarrow> outcome io" where
  "client_dial H fuel method path info =
     or_fatal (Connect info) ''libp2p connection wasnt established : '' (\<lambda>_.
     io_bind (Println [AStr ''libp2p connection established with'', AStr (ai_ID info)]) (\<lambda>_.
     io_bind (Go (GoWatch (Some (10 * Second)) (ai_ID info) (10 * Second))) (\<lambda>_.
     io_bind (Sleep (3 * Second)) (\<lambda>_.
     or_fatal (NewStream (ai_ID info) ProtocolID) ''couldn't open stream: '' (\<lambda>_.
     io_bind (client_stream H fuel method path) (\<lambda>out.
     io_bind HostClose (\<lambda>_.
     Ret out)))))))"

definition client_run ::
  "libp2p \<Rightarrow> digest \<Rightarrow> nat \<Rightarrow> string \<Rightarrow> string \<Rightarrow> string \<Rightarrow> outcome io" where
  "client_run lib H fuel method path targetAddr =
     or_fatal GenerateEphemeralIdentity ''couldn't generate client identity: '' (\<lambda>priv.
     io_bind (Getenv ''RELAY_ADDRS'') (\<lambda>csv.
     or_fatal (Ret (StaticRelayAddrs lib (client_splitNonEmpty csv))) ''bad RELAY_ADDRS: '' (\<lambda>staticRelays.
     or_fatal (NewHost priv ClientListenAddrs staticRelays) ''libp2p host creation failed: '' (\<lambda>h.
     or_fatal (Ret (NewMultiaddr lib targetAddr)) ''invalid server multiaddr: '' (\<lambda>maddr.
     or_fatal (Ret (AddrInfoFromP2pAddr lib maddr)) ''couldn't extract peer info from multiaddr: '' (\<lambda>info.
     client_dial H fuel method path info))))))"

definition client_main ::
  "libp2p \<Rightarrow> (string \<Rightarrow> string) \<Rightarrow> digest \<Rightarrow> nat \<Rightarrow> string list \<Rightarrow> outcome io" where
  "client_main lib unicode_upper H fuel args =
     (if length args < 4 then
        io_bind (Println [AStr ''Usage: client <GET|POST> <path> <server-multiaddr>'']) (\<lambda>_.
        io_bind (Println [AStr (''Example: client GET /remote/path/file.png '' @ [CHR 0x22] @
          ''/ip4/1.2.3.4/tcp/9001/p2p/12D3KooW...'' @ [CHR 0x22])]) (\<lambda>_.
        Halt (Exit 1)))
      else
        let method = ToUpper unicode_upper (args ! 1);
            path = args ! 2;
            targetAddr = args ! 3
        in client_run lib H fuel method path targetAddr)"

section \<open>Before the client speaks\<close>

text \<open>The peer the client's last argument names.\<close>

definition target :: "libp2p \<Rightarrow> string \<Rightarrow> AddrInfo option" where
  "target lib addr =
     (case NewMultiaddr lib addr of
        Inl _ \<Rightarrow> None
      | Inr maddr \<Rightarrow> (case AddrInfoFromP2pAddr lib maddr of Inl _ \<Rightarrow> None | Inr info \<Rightarrow> Some info))"

text \<open>
  The monitor of the client: a stream is opened only to the target, once it is connected, and with
  the program's protocol; the stream and the files of the transfer are used only when it is open.
\<close>

datatype reached = SetUp | Linked | Open

fun uses_stream :: "req \<Rightarrow> bool" where
  "uses_stream (QRead n) = True"
| "uses_stream (QWrite b) = True"
| "uses_stream (QFOpen p) = True"
| "uses_stream (QFCreate p) = True"
| "uses_stream (QFReadAt p n off) = True"
| "uses_stream (QFWrite p b) = True"
| "uses_stream _ = False"

fun client_stage :: "AddrInfo option \<Rightarrow> reached \<Rightarrow> event \<Rightarrow> reached option" where
  "client_stage tgt Open e = Some Open"
| "client_stage tgt st (QConnect i, r) = Some (if r_err r = None \<and> Some i = tgt then Linked else st)"
| "client_stage tgt st (QNewStream p protocol, r) =
     (if st = Linked \<and> map_option ai_ID tgt = Some p \<and> protocol = ProtocolID
      then Some (if r_err r = None then Open else st) else None)"
| "client_stage tgt st (q, r) = (if uses_stream q then None else Some st)"

lemma wph_open: "wph (\<lambda>_ _. True) (client_stage tgt) p (\<lambda>_ _. True) Open"
  by (induction p) simp_all

abbreviation (input) client_wp :: "AddrInfo option \<Rightarrow> 'a io \<Rightarrow> ('a \<Rightarrow> reached \<Rightarrow> bool) \<Rightarrow> reached \<Rightarrow> bool" where
  "client_wp tgt \<equiv> wph (\<lambda>_ _. True) (client_stage tgt)"

lemma client_stage_other:
  "\<not> uses_stream q \<Longrightarrow> (\<And>p protocol. q \<noteq> QNewStream p protocol) \<Longrightarrow> st \<noteq> Open \<Longrightarrow>
   \<exists>st'. client_stage tgt st (q, r) = Some st' \<and> st' \<noteq> Open"
  by (cases st; cases q) auto

text \<open>A part of the set-up: it neither opens nor uses the stream.\<close>

primrec quiet :: "'a io \<Rightarrow> bool" where
  "quiet (Ret x) = True"
| "quiet (Halt h) = True"
| "quiet (Act q k) = (\<not> uses_stream q \<and> (\<forall>p protocol. q \<noteq> QNewStream p protocol) \<and> (\<forall>r. quiet (k r)))"

lemma quiet_bind: "quiet p \<Longrightarrow> (\<And>x. quiet (f x)) \<Longrightarrow> quiet (io_bind p f)"
  by (induction p) simp_all

lemma quiet_wp:
  "quiet p \<Longrightarrow> st \<noteq> Open \<Longrightarrow> (\<And>x st. st \<noteq> Open \<Longrightarrow> Q x st) \<Longrightarrow> client_wp tgt p Q st"
proof (induction p arbitrary: st)
  case (Act q k)
  show ?case
  proof (simp, intro allI impI)
    fix r
    obtain st' where "client_stage tgt st (q, r) = Some st'" "st' \<noteq> Open"
      using client_stage_other Act.prems(1,2) by (metis quiet.simps(3))
    then show "case client_stage tgt st (q, r) of None \<Rightarrow> False | Some m' \<Rightarrow> client_wp tgt (k r) Q m'"
      using Act.IH [OF rangeI, of r st'] Act.prems by simp
  qed
qed simp_all

lemma quiet_calls [simp]:
  "quiet (Println args)" "quiet (Printf_nl fmt args)" "quiet (Logf fmt args)" "quiet (Go g)" "quiet (Sleep d)"
  "quiet (Getenv n)" "quiet (Connect i)" "quiet (Reserve i)" "quiet (libp2p_New opts)" "quiet GenerateKeyPair"
  by (simp_all add: p2p_call_defs)

lemma quiet_reserve_relays [simp]: "quiet (reserve_relays relays)"
  by (induction relays) (auto intro!: quiet_bind split: sum.split)

lemma quiet_NewHost [simp]: "quiet (NewHost priv listenAddrs relays)"
  by (auto simp: NewHost_def io_try_def LogIdentifyEvents_def intro!: quiet_bind split: sum.split option.split)

lemma setup_bind:
  "quiet m \<Longrightarrow> st \<noteq> Open \<Longrightarrow> (\<And>x st. st \<noteq> Open \<Longrightarrow> client_wp tgt (f x) Q st) \<Longrightarrow> client_wp tgt (io_bind m f) Q st"
  unfolding wp_bind by (rule quiet_wp)

lemma setup_or_fatal:
  "quiet m \<Longrightarrow> st \<noteq> Open \<Longrightarrow> (\<And>x st. st \<noteq> Open \<Longrightarrow> client_wp tgt (f x) Q st) \<Longrightarrow>
   client_wp tgt (or_fatal m msg f) Q st"
  unfolding wph_or_fatal by (rule quiet_wp) (auto split: sum.split)

lemma client_dial_wp:
  assumes "st \<noteq> Open"
  shows "client_wp (Some info) (client_dial H fuel method path info) (\<lambda>_ _. True) st"
proof -
  have "client_wp (Some info)
      (or_fatal (NewStream (ai_ID info) ProtocolID) msg (\<lambda>_. io_bind (client_stream H fuel method path) f)) (\<lambda>_ _. True) Linked"
    for msg and f :: "outcome \<Rightarrow> outcome io"
    by (auto simp: wph_or_fatal p2p_call_defs wph_open split: sum.split)
  then have "client_wp (Some info) (io_bind (Println args) (\<lambda>_. io_bind (Go g) (\<lambda>_. io_bind (Sleep d) (\<lambda>_.
      or_fatal (NewStream (ai_ID info) ProtocolID) msg (\<lambda>_. io_bind (client_stream H fuel method path) f))))) (\<lambda>_ _. True) Linked"
    for args g d msg and f :: "outcome \<Rightarrow> outcome io"
    by (simp add: Println_def Go_def Sleep_def)
  with assms show ?thesis
    unfolding client_dial_def wph_or_fatal [of _ _ "Connect info"]
    by (cases st) (auto simp: Connect_def reply_unit_def split: option.split)
qed

lemma client_run_wp: "client_wp (target lib addr) (client_run lib H fuel method path addr) (\<lambda>_ _. True) SetUp"
proof -
  have dial: "client_wp (target lib addr) (or_fatal (Ret (NewMultiaddr lib addr)) msg (\<lambda>maddr.
      or_fatal (Ret (AddrInfoFromP2pAddr lib maddr)) msg' (\<lambda>info. client_dial H fuel method path info))) (\<lambda>_ _. True) st"
    if "st \<noteq> Open" for msg msg' st
    using client_dial_wp [OF that] by (auto simp: or_fatal_def target_def split: sum.split)
  show ?thesis
    unfolding client_run_def GenerateEphemeralIdentity_def
    by (rule setup_or_fatal [OF _ _ setup_bind [OF _ _ setup_or_fatal [OF _ _ setup_or_fatal [OF _ _ dial]]]]) simp_all
qed

lemma client_main_wp:
  "client_wp (target lib (args ! 3)) (client_main lib up H fuel args) (\<lambda>_ _. True) SetUp"
  using client_run_wp by (simp add: client_main_def Let_def Println_def)

text \<open>What the monitor has seen when the stream is open.\<close>

lemma stage_opens:
  "client_stage tgt st (q, r) = Some Open \<Longrightarrow> st \<noteq> Open \<Longrightarrow>
   st = Linked \<and> r_err r = None \<and> (\<exists>info. tgt = Some info \<and> q = QNewStream (ai_ID info) ProtocolID)"
  by (cases st; cases q) (auto split: if_splits)

lemma stage_links:
  "client_stage tgt SetUp (q, r) = Some st \<Longrightarrow> st \<noteq> SetUp \<Longrightarrow>
   st = Linked \<and> r_err r = None \<and> (\<exists>info. tgt = Some info \<and> q = QConnect info)"
  by (cases q) (auto split: if_splits)

lemma run_links:
  assumes "mon_run (client_stage tgt) SetUp es = Some st" and "st \<noteq> SetUp"
  shows "\<exists>info r. tgt = Some info \<and> (QConnect info, r) \<in> set es \<and> r_err r = None"
  using assms
proof (induction es)
  case (Cons e es)
  obtain q r where e: "e = (q, r)" by (cases e)
  from Cons.prems obtain st1 where st1: "client_stage tgt SetUp (q, r) = Some st1"
    and rest: "mon_run (client_stage tgt) st1 es = Some st" by (auto simp: e split: option.splits)
  show ?case
  proof (cases "st1 = SetUp")
    case True
    with Cons.IH rest Cons.prems(2) show ?thesis by auto
  next
    case False
    with stage_links [OF st1] e show ?thesis by auto
  qed
qed simp

lemma run_opens:
  assumes "mon_run (client_stage tgt) st es = Some Open" and "st \<noteq> Open"
  shows "\<exists>info as r cs. tgt = Some info \<and> es = as @ (QNewStream (ai_ID info) ProtocolID, r) # cs \<and>
    r_err r = None \<and> mon_run (client_stage tgt) st as = Some Linked"
  using assms
proof (induction es arbitrary: st)
  case (Cons e es)
  obtain q r where e: "e = (q, r)" by (cases e)
  from Cons.prems obtain st1 where st1: "client_stage tgt st (q, r) = Some st1"
    and rest: "mon_run (client_stage tgt) st1 es = Some Open" by (auto simp: e split: option.splits)
  show ?case
  proof (cases "st1 = Open")
    case True
    then have "client_stage tgt st (q, r) = Some Open" using st1 by simp
    from stage_opens [OF this Cons.prems(2)] obtain info where "st = Linked" "r_err r = None" "tgt = Some info"
      "q = QNewStream (ai_ID info) ProtocolID" by blast
    then show ?thesis unfolding e by (intro exI [of _ info] exI [of _ "[]"] exI [of _ r] exI [of _ es]) simp
  next
    case False
    from Cons.IH [OF rest False] obtain info as r' cs where "tgt = Some info"
      "es = as @ (QNewStream (ai_ID info) ProtocolID, r') # cs" "r_err r' = None"
      "mon_run (client_stage tgt) st1 as = Some Linked" by blast
    with st1 show ?thesis unfolding e
      by (intro exI [of _ info] exI [of _ "(q, r) # as"] exI [of _ r'] exI [of _ cs]) simp
  qed
qed simp

lemma stage_use: "client_stage tgt st (q, r) \<noteq> None \<Longrightarrow> uses_stream q \<Longrightarrow> st = Open"
  by (cases st; cases q) auto

lemma exec_Halt: "exec (Halt h) es = Some p \<longleftrightarrow> es = [] \<and> p = Halt h"
  by (cases es) auto

text \<open>C34: the client says nothing before it is connected. Whatever the environment replies, when
  \<^verbatim>\<open>client\<close> reads or writes the stream or opens, creates, reads or writes a file, its last argument
  has been parsed into a peer, a connection to that peer has been made, and after it a stream to
  that peer has been opened for the program's protocol. With fewer than three arguments it exits
  with code 1 and does nothing but print its usage.\<close>

theorem client_connects_first:
  assumes "exec (client_main lib up H fuel args) (xs @ (q, r) # ys) = Some p" and "uses_stream q"
  shows "\<exists>info as r1 r2 bs. target lib (args ! 3) = Some info \<and> 4 \<le> length args \<and>
    xs = as @ (QNewStream (ai_ID info) ProtocolID, r2) # bs \<and> r_err r2 = None \<and>
    (QConnect info, r1) \<in> set as \<and> r_err r1 = None"
proof -
  obtain st where "mon_run (client_stage (target lib (args ! 3))) SetUp (xs @ (q, r) # ys) = Some st"
    using wp_exec [OF client_main_wp assms(1)] by blast
  then obtain st1 where "mon_run (client_stage (target lib (args ! 3))) SetUp xs = Some st1"
    and "client_stage (target lib (args ! 3)) st1 (q, r) \<noteq> None"
    by (auto simp: mon_run_append split: option.splits Option.bind_splits)
  with stage_use assms(2) have "mon_run (client_stage (target lib (args ! 3))) SetUp xs = Some Open" by blast
  from run_opens [OF this] obtain info as r2 bs where info: "target lib (args ! 3) = Some info"
    and xs: "xs = as @ (QNewStream (ai_ID info) ProtocolID, r2) # bs" "r_err r2 = None"
    and "mon_run (client_stage (target lib (args ! 3))) SetUp as = Some Linked" by blast
  with run_links obtain r1 where "(QConnect info, r1) \<in> set as" "r_err r1 = None" by fastforce
  moreover have "4 \<le> length args"
  proof (rule ccontr)
    assume "\<not> 4 \<le> length args"
    then show False
      using assms by (cases xs; cases "tl xs") (auto simp: client_main_def Println_def exec_Halt split: if_splits)
  qed
  ultimately show ?thesis using info xs by blast
qed

section \<open>What the server announces\<close>

text \<open>The lines that list the circuit addresses.\<close>

definition circuit_lines :: "AddrInfo list \<Rightarrow> peer_ID \<Rightarrow> event list" where
  "circuit_lines relays h =
     map (\<lambda>a. (QPrintln [AStr (''  '' @ a)], Reply None [] 0))
       (filter (\<lambda>a. a \<noteq> []) (map (\<lambda>relay. CircuitAddr relay h) relays))"

lemma exec_print_circuits: "exec (io_bind (print_circuits relays h) f) (circuit_lines relays h @ es) = exec (f ()) es"
  by (induction relays) (simp_all add: circuit_lines_def Println_def Let_def)

definition server_output :: "peer_ID \<Rightarrow> Multiaddr list \<Rightarrow> AddrInfo list \<Rightarrow> event list" where
  "server_output h addrs relays =
     [(QPrintln [AStr ''Server PeerID:'', AStr h], Reply None [] 0),
      (QPrintln [AStr ''Server is listening on:''], Reply None [] 0),
      (QSleep (15 * Second), Reply None [] 0), (QHostAddrs, Names addrs)] @
     addr_lines addrs h @ circuit_lines relays h @
     [(QPrintln [AStr (CHR 0x0A # ''Give one of the addresses above (with /p2p/<PeerID>) to the client.'')], Reply None [] 0)]"


section \<open>From the command line to the file\<close>

text \<open>A set-up in which everything succeeds: the run \<open>hs\<close> of \<^verbatim>\<open>NewHost\<close> may still lose relays.\<close>

definition client_setup :: "PrivKey \<Rightarrow> string \<Rightarrow> event list \<Rightarrow> AddrInfo \<Rightarrow> event list" where
  "client_setup priv csv hs info =
     [(QGenerateKeyPair, Reply None priv 0), (QGetenv ''RELAY_ADDRS'', Reply None (str_bytes csv) 0)] @ hs @
     [(QConnect info, Reply None [] 0),
      (QPrintln [AStr ''libp2p connection established with'', AStr (ai_ID info)], Reply None [] 0),
      (QGo (GoWatch (Some (10 * Second)) (ai_ID info) (10 * Second)), Reply None [] 0),
      (QSleep (3 * Second), Reply None [] 0), (QNewStream (ai_ID info) ProtocolID, Reply None [] 0)]"

definition close_host :: "outcome \<Rightarrow> outcome io" where
  "close_host out = io_bind HostClose (\<lambda>_. Ret out)"

lemma target_Some:
  "target lib addr = Some info \<Longrightarrow>
   \<exists>maddr. NewMultiaddr lib addr = Inr maddr \<and> AddrInfoFromP2pAddr lib maddr = Inr info"
  by (auto simp: target_def split: sum.splits)

lemma exec_client_setup:
  assumes "4 \<le> length args" and "StaticRelayAddrs lib (client_splitNonEmpty csv) = Inr relays"
    and "exec (NewHost priv ClientListenAddrs relays) hs = Some (Ret (Inr h))"
    and "target lib (args ! 3) = Some info"
  shows "exec (client_main lib up H fuel args) (client_setup priv csv hs info) =
    Some (io_bind (client_stream H fuel (ToUpper up (args ! 1)) (args ! 2)) close_host)"
proof -
  obtain maddr where "NewMultiaddr lib (args ! 3) = Inr maddr" "AddrInfoFromP2pAddr lib maddr = Inr info"
    using target_Some [OF assms(4)] by blast
  with assms(1,2) show ?thesis
    by (simp add: client_main_def client_run_def client_dial_def client_setup_def GenerateEphemeralIdentity_def
        p2p_call_defs exec_or_fatal [OF assms(3)] close_host_def [abs_def] del: nth_Cons_numeral)
qed

text \<open>Closing the host is the last step of the side that has one.\<close>

lemma close_host_right:
  assumes "duplex_step\<^sup>*\<^sup>* (system l lm r rm br bl) (system (Ret x) lm' (Ret y) rm' [] [])"
  shows "duplex_step\<^sup>*\<^sup>* (system l lm (io_bind r close_host) rm br bl) (system (Ret x) lm' (Ret y) rm' [] [])"
proof -
  note 1 = duplex_steps_context [OF assms, where f = Ret and g = close_host]
  have "drive (close_host y) rm' [] = (Ret y, rm', [], [])" by (simp add: close_host_def HostClose_def)
  note 2 = run_right [OF this, where l = "Ret x" and bl = "[]" and lm = lm', unfolded append_Nil]
  from rtranclp_trans [OF 1 [unfolded in_context_def, simplified] 2] show ?thesis .
qed

lemma close_host_left:
  assumes "duplex_step\<^sup>*\<^sup>* (system l lm r rm br bl) (system (Ret x) lm' (Ret y) rm' [] [])"
  shows "duplex_step\<^sup>*\<^sup>* (system (io_bind l close_host) lm r rm br bl) (system (Ret x) lm' (Ret y) rm' [] [])"
proof -
  note 1 = duplex_steps_context [OF assms, where f = close_host and g = Ret]
  have "drive (close_host x) lm' [] = (Ret x, lm', [], [])" by (simp add: close_host_def HostClose_def)
  note 2 = run_left [OF this, where r = "Ret y" and br = "[]" and rm = rm', unfolded append_Nil]
  from rtranclp_trans [OF 1 [unfolded in_context_def, simplified] 2] show ?thesis .
qed

text \<open>C11: the whole client. When the set-up of \<^verbatim>\<open>client GET path addr\<close> or \<^verbatim>\<open>client POST path addr\<close> (in any
  case of letters) succeeds, what is left of its \<^verbatim>\<open>main\<close> and the server's stream handler, connected by
  the stream it opened, end in every interleaving with both transfers finished, the file copied from
  the server to the client, or from the client to the server, and the client's host closed.\<close>

theorem client_delivers:
  assumes "\<And>x. length (H x) = HashSize" and "length content \<le> ChunkSize * (2 ^ 32 - 1)"
    and "length (args ! 2) < 2 ^ 32" and "5 * chunk_count (length content) + 4 \<le> f"
    and "4 \<le> length args" and "StaticRelayAddrs lib (client_splitNonEmpty csv) = Inr relays"
    and "exec (NewHost priv ClientListenAddrs relays) hs = Some (Ret (Inr h))"
    and "target lib (args ! 3) = Some info"
  shows "\<exists>p. exec (client_main lib up H f args) (client_setup priv csv hs info) = Some p \<and>
    (ToUpper up (args ! 1) = ''GET'' \<and> m_files server (args ! 2) = Some content \<longrightarrow>
       settles (system (HandleStream remote H f) server p client [] []) (file_copied server client (args ! 2) content)) \<and>
    (ToUpper up (args ! 1) = ''POST'' \<and> m_files client (args ! 2) = Some content \<longrightarrow>
       settles (system p client (HandleStream remote H f) server [] []) (file_copied client server (args ! 2) content))"
proof -
  let ?path = "args ! 2"
  have f: "4 * chunk_count (length content) + 4 \<le> f" using assms(4) by simp
  have get: "settles (system (HandleStream remote H f) server (io_bind (client_stream H f ''GET'' ?path) close_host) client [] [])
      (file_copied server client ?path content)" if "m_files server ?path = Some content"
    using request_run [where H = H, OF assms(1) that assms(2,3) f assms(4) request_GET [OF assms(3)]]
      close_host_right settlesI by metis
  have post: "settles (system (io_bind (client_stream H f ''POST'' ?path) close_host) client (HandleStream remote H f) server [] [])
      (file_copied client server ?path content)" if "m_files client ?path = Some content"
    using request_run [where H = H, OF assms(1) that assms(2,3) f assms(4) request_POST [OF assms(3)]]
      close_host_left settlesI by metis
  from get post show ?thesis unfolding exec_client_setup [OF assms(5-8)] by auto
qed

end
