(* ===== verification/Base64.thy ===== *)
theory Base64
  imports Go_IO
begin

text \<open>
  \<^verbatim>\<open>base64.StdEncoding\<close> of Go's standard library, which the relay uses to keep its private key in an
  environment variable: groups of three bytes as four letters of a 64-letter alphabet, the last group
  padded with \<^verbatim>\<open>=\<close>. The decoder skips carriage returns and line feeds and wants the padding; the
  offset its error carries is not modelled.
\<close>

section \<open>Encoding\<close>

definition base64_alphabet :: string where
  "base64_alphabet = ''ABCDEFGHIJKLMNOPQRSTUVWXYZabcdefghijklmnopqrstuvwxyz0123456789+/''"

definition letter :: "nat \<Rightarrow> char" where
  "letter i = base64_alphabet ! i"

text \<open>The letters of a 24-bit group, the first one first.\<close>

definition letters :: "nat \<Rightarrow> string" where
  "letters v = [letter (v div 262144), letter (v div 4096 mod 64), letter (v div 64 mod 64), letter (v mod 64)]"

definition packed :: "byte \<Rightarrow> byte \<Rightarrow> byte \<Rightarrow> nat" where
  "packed a b c = unat a * 65536 + unat b * 256 + unat c"

fun EncodeToString :: "bytes \<Rightarrow> string" where
  "EncodeToString [] = []"
| "EncodeToString [a] = take 2 (letters (packed a 0 0)) @ ''==''"
| "EncodeToString [a, b] = take 3 (letters (packed a b 0)) @ ''=''"
| "EncodeToString (a # b # c # rest) = letters (packed a b c) @ EncodeToString rest"

section \<open>Decoding\<close>

fun index_from :: "nat \<Rightarrow> string \<Rightarrow> char \<Rightarrow> nat option" where
  "index_from i [] c = None"
| "index_from i (x # xs) c = (if x = c then Some i else index_from (Suc i) xs c)"

definition decodeMap :: "char \<Rightarrow> nat option" where
  "decodeMap = index_from 0 base64_alphabet"

definition group_bytes :: "nat \<Rightarrow> bytes" where
  "group_bytes v = [word_of_nat (v div 65536), word_of_nat (v div 256), word_of_nat v]"

abbreviation (input) "corrupt_input \<equiv> SysError ''illegal base64 data''"

fun decode_groups :: "string \<Rightarrow> bytes go_result" where
  "decode_groups [] = Inr []"
| "decode_groups (a # b # c # d # rest) =
     (case (decodeMap a, decodeMap b, decodeMap c, decodeMap d) of
        (Some i, Some j, Some k, Some l) \<Rightarrow>
          (case decode_groups rest of
             Inl e \<Rightarrow> Inl e
           | Inr bs \<Rightarrow> Inr (group_bytes (i * 262144 + j * 4096 + k * 64 + l) @ bs))
      | (Some i, Some j, Some k, None) \<Rightarrow>
          if d = CHR ''='' \<and> rest = [] then Inr (take 2 (group_bytes (i * 262144 + j * 4096 + k * 64)))
          else Inl corrupt_input
      | (Some i, Some j, None, _) \<Rightarrow>
          if c = CHR ''='' \<and> d = CHR ''='' \<and> rest = [] then Inr (take 1 (group_bytes (i * 262144 + j * 4096)))
          else Inl corrupt_input
      | _ \<Rightarrow> Inl corrupt_input)"
| "decode_groups _ = Inl corrupt_input"

definition line_break :: "char \<Rightarrow> bool" where
  "line_break c \<longleftrightarrow> c = char_of (10 :: nat) \<or> c = char_of (13 :: nat)"

definition DecodeString :: "string \<Rightarrow> bytes go_result" where
  "DecodeString s = decode_groups (filter (\<lambda>c. \<not> line_break c) s)"

section \<open>Round trip\<close>

lemma letters_checked:
  "\<forall>i\<in>set [0..<64]. decodeMap (letter i) = Some i \<and> \<not> line_break (letter i)"
  by code_simp

lemma letter_ok [simp]: "i < 64 \<Longrightarrow> decodeMap (letter i) = Some i" "i < 64 \<Longrightarrow> \<not> line_break (letter i)"
  using letters_checked by simp_all

lemma padding_ok [simp]: "decodeMap (CHR ''='') = None" "\<not> line_break (CHR ''='')"
  by code_simp+

lemma digits64: "v div 262144 * 262144 + v div 4096 mod 64 * 4096 + v div 64 mod 64 * 64 + v mod 64 = (v :: nat)"
proof -
  have "v = v div 64 * 64 + v mod 64" by simp
  moreover have "v div 64 = v div 4096 * 64 + v div 64 mod 64"
    using div_mult_mod_eq [of "v div 64" 64] by (simp add: div_mult2_eq [symmetric])
  moreover have "v div 4096 = v div 262144 * 64 + v div 4096 mod 64"
    using div_mult_mod_eq [of "v div 4096" 64] by (simp add: div_mult2_eq [symmetric])
  ultimately show ?thesis by linarith
qed

lemma packed_less [simp]: "packed a b c div 262144 < 64"
  using byte_less_256 [of a] byte_less_256 [of b] byte_less_256 [of c] unfolding packed_def by linarith

lemma word_of_nat_byte: "n mod 256 = unat w \<Longrightarrow> word_of_nat n = (w :: byte)"
  by (rule word_unat_eq_iff [THEN iffD2]) (simp add: unat_of_nat take_bit_eq_mod)

lemma group_bytes_group: "group_bytes (packed a b c) = [a, b, c]"
proof -
  have "packed a b c div 65536 = unat a"
    using byte_less_256 [of b] byte_less_256 [of c] unfolding packed_def by linarith
  moreover have "packed a b c div 256 = unat a * 256 + unat b"
    using byte_less_256 [of c] unfolding packed_def by linarith
  moreover have "packed a b c mod 256 = unat c"
    unfolding packed_def by (simp add: mod_add_eq [symmetric] mod_mult_right_eq)
  moreover have "unat a mod 256 = unat a" "(unat a * 256 + unat b) mod 256 = unat b" by simp_all
  ultimately show ?thesis
    unfolding group_bytes_def by (metis word_of_nat_byte)
qed

lemma decode_letters:
  "decode_groups (letters (packed a b c) @ s) =
     (case decode_groups s of Inl e \<Rightarrow> Inl e | Inr bs \<Rightarrow> Inr (a # b # c # bs))"
  using digits64 [of "packed a b c"]
  by (simp add: letters_def group_bytes_group split: sum.split)

lemma decode_last2: "decode_groups (take 3 (letters (packed a b 0)) @ ''='') = Inr [a, b]"
proof -
  have "packed a b 0 mod 64 = 0" unfolding packed_def by simp
  with digits64 [of "packed a b 0"]
  have "packed a b 0 div 262144 * 262144 + packed a b 0 div 4096 mod 64 * 4096 + packed a b 0 div 64 mod 64 * 64 = packed a b 0"
    by simp
  then show ?thesis by (simp add: letters_def group_bytes_group)
qed

lemma decode_last1: "decode_groups (take 2 (letters (packed a 0 0)) @ ''=='') = Inr [a]"
proof -
  have "packed a 0 0 mod 64 = 0" "packed a 0 0 div 64 mod 64 = 0" unfolding packed_def by simp_all
  with digits64 [of "packed a 0 0"]
  have "packed a 0 0 div 262144 * 262144 + packed a 0 0 div 4096 mod 64 * 4096 = packed a 0 0"
    by simp
  then show ?thesis by (simp add: letters_def group_bytes_group)
qed

lemma EncodeToString_one_line: "filter (\<lambda>c. \<not> line_break c) (EncodeToString b) = EncodeToString b"
  by (induction b rule: EncodeToString.induct) (simp_all add: letters_def)

lemma DecodeString_EncodeToString: "DecodeString (EncodeToString b) = Inr b"
proof -
  have "decode_groups (EncodeToString b) = Inr b"
    by (induction b rule: EncodeToString.induct) (simp_all only: EncodeToString.simps decode_letters decode_last1 decode_last2, simp_all)
  then show ?thesis by (simp add: DecodeString_def EncodeToString_one_line)
qed

lemma EncodeToString_empty [simp]: "EncodeToString b = [] \<longleftrightarrow> b = []"
  by (induction b rule: EncodeToString.induct) (simp_all add: letters_def)

end
