(* ===== verification/Relay.thy ===== *)
theory Relay
  imports P2P Base64
begin

text \<open>
  The relay program (\<^verbatim>\<open>src/relay/main.go\<close>): its identity comes from an environment variable or from a
  file, and its host runs the relay service on one port until the process gets a signal.
\<close>

section \<open>The program\<close>

definition relay_identityKeyPath :: string where
  "relay_identityKeyPath = ''relay_identity.key''"

definition announce_key :: "bytes \<Rightarrow> unit io" where
  "announce_key data =
     io_bind (Println [AStr (''No RELAY_PRIVKEY_B64 set '' @ em_dash @
       '' generated/loaded identity from disk instead.'')]) (\<lambda>_.
     io_bind (Println [AStr ''To keep this PeerID stable across Render restarts/redeploys, copy the'']) (\<lambda>_.
     io_bind (Println [AStr ''following into a Render env var named RELAY_PRIVKEY_B64 (mark it Secret):'']) (\<lambda>_.
     io_bind (Println [AStr (EncodeToString data)]) (\<lambda>_.
     Println []))))"

definition loadIdentity :: "libp2p \<Rightarrow> string \<Rightarrow> PrivKey go_result io" where
  "loadIdentity lib keyPath =
     io_bind (Getenv ''RELAY_PRIVKEY_B64'') (\<lambda>b64.
       if b64 \<noteq> [] then
         (case DecodeString b64 of
            Inl err \<Rightarrow> Ret (Inl (Errorf ''bad RELAY_PRIVKEY_B64: %w'' [AErr err]))
          | Inr data \<Rightarrow> Ret (UnmarshalPrivateKey lib data))
       else
         io_try (LoadOrCreateIdentity lib keyPath) Inl (\<lambda>priv.
         io_try (Ret (MarshalPrivateKey lib priv)) Inl (\<lambda>data.
         io_bind (announce_key data) (\<lambda>_.
         Ret (Inr priv)))))"

definition relay_opts :: "PrivKey \<Rightarrow> string \<Rightarrow> host_option list" where
  "relay_opts priv port =
     [Identity priv, ListenAddrStrings [''/ip4/0.0.0.0/tcp/'' @ port @ ''/ws''],
      EnableRelayService_WithInfiniteLimits, ForceReachabilityPublic, DisableRelay]"

definition relay_main :: "libp2p \<Rightarrow> unit io" where
  "relay_main lib =
     or_fatal (loadIdentity lib relay_identityKeyPath) ''couldn't load/create relay identity: '' (\<lambda>priv.
     io_bind (Getenv ''PORT'') (\<lambda>port.
     let port = (if port = [] then ''4001'' else port) in
     or_fatal (libp2p_New (relay_opts priv port)) ''relay host creation failed: '' (\<lambda>h.
     io_bind (Println [AStr ''Relay PeerID:'', AStr h]) (\<lambda>_.
     io_bind (Println [AStr ''Relay listening on:'']) (\<lambda>_.
     io_bind HostAddrs (\<lambda>addrs.
     io_bind (print_addrs addrs h) (\<lambda>_.
     io_bind (Println [AStr (CHR 0x0A #
       ''Give one of the addresses above (with /p2p/<PeerID>) to both peer nodes as a static relay candidate.'')]) (\<lambda>_.
     io_bind WaitSignal (\<lambda>sig.
     io_bind (Println [AStr sig]) (\<lambda>_.
     io_bind (Println [AStr (CHR 0x0A # ''Shutting down relay.'')]) (\<lambda>_.
     HostClose)))))))))))"

section \<open>The identity moves with the environment variable\<close>

lemma announce_key_run:
  "exec (announce_key data) es = Some (Ret ()) \<Longrightarrow>
   \<exists>es0 r r'. es = es0 @ [(QPrintln [AStr (EncodeToString data)], r), (QPrintln [], r')]"
proof -
  assume "exec (announce_key data) es = Some (Ret ())"
  then obtain e1 e2 e3 r r' where "es = [e1, e2, e3] @ [(QPrintln [AStr (EncodeToString data)], r), (QPrintln [], r')]"
    by (auto simp: announce_key_def Println_def exec_Act_Ret exec_Ret_Ret)
  then show ?thesis by blast
qed

text \<open>A run without the variable ends with the announcement of the key it returns.\<close>

lemma loadIdentity_announces:
  assumes "exec (loadIdentity lib p) ((QGetenv ''RELAY_PRIVKEY_B64'', Reply None [] 0) # es) = Some (Ret (Inr k))"
  obtains d xs ys where "es = xs @ ys" "MarshalPrivateKey lib k = Inr d" "exec (announce_key d) ys = Some (Ret ())"
proof -
  have "exec (io_try (LoadOrCreateIdentity lib p) Inl (\<lambda>priv.
      io_try (Ret (MarshalPrivateKey lib priv)) Inl (\<lambda>data. io_bind (announce_key data) (\<lambda>_. Ret (Inr priv))))) es =
      Some (Ret (Inr k))"
    using assms by (simp add: loadIdentity_def Getenv_def bytes_str_def)
  then obtain xs ys res where es: "es = xs @ ys" and "exec (case res of Inl e \<Rightarrow> Ret (Inl e) | Inr priv \<Rightarrow>
      io_try (Ret (MarshalPrivateKey lib priv)) Inl (\<lambda>data. io_bind (announce_key data) (\<lambda>_. Ret (Inr priv)))) ys =
      Some (Ret (Inr k))"
    unfolding io_try_def [of "LoadOrCreateIdentity lib p"] by (blast dest: exec_bind_Ret)
  then obtain priv d where "MarshalPrivateKey lib priv = Inr d"
    "exec (io_bind (announce_key d) (\<lambda>_. Ret (Inr priv :: PrivKey go_result))) ys = Some (Ret (Inr k))"
    by (auto simp: exec_Ret_Ret io_try_def split: sum.splits)
  with es show ?thesis by (auto simp: exec_Ret_Ret intro!: that dest!: exec_bind_Ret)
qed

text \<open>C37: the relay's identity can be moved. A first run without \<^verbatim>\<open>RELAY_PRIVKEY_B64\<close> that ends up with a
  key prints a text as its last line but one such that every run with this text in the variable has
  the same key, without looking at any file: Base64, the library's marshalling and the file agree.\<close>

theorem relay_identity_moves:
  assumes "marshal_inverse lib" and "\<And>k. MarshalPrivateKey lib k \<noteq> Inr []"
    and "exec (loadIdentity lib p) ((QGetenv ''RELAY_PRIVKEY_B64'', Reply None [] 0) # es) = Some (Ret (Inr k))"
  shows "\<exists>text es0 r r'. es = es0 @ [(QPrintln [AStr text], r), (QPrintln [], r')] \<and>
    exec (loadIdentity lib p') [(QGetenv ''RELAY_PRIVKEY_B64'', Reply None (str_bytes text) 0)] = Some (Ret (Inr k))"
proof -
  obtain d xs ys where es: "es = xs @ ys" and d: "MarshalPrivateKey lib k = Inr d"
    and ys: "exec (announce_key d) ys = Some (Ret ())"
    using loadIdentity_announces [OF assms(3)] .
  obtain es0 r r' where "ys = es0 @ [(QPrintln [AStr (EncodeToString d)], r), (QPrintln [], r')]"
    using announce_key_run [OF ys] by blast
  moreover have "d \<noteq> []" using assms(2) [of k] d by auto
  then have "exec (loadIdentity lib p') [(QGetenv ''RELAY_PRIVKEY_B64'', Reply None (str_bytes (EncodeToString d)) 0)] =
      Some (Ret (Inr k))"
    using assms(1) d by (simp add: loadIdentity_def Getenv_def DecodeString_EncodeToString marshal_inverse_def)
  ultimately show ?thesis using es by (metis append.assoc)
qed

section \<open>A relay at work\<close>

text \<open>
  With an identity and a host that can be made, the relay listens on \<^verbatim>\<open>PORT\<close>, or on 4001 when that
  is unset, prints its addresses and runs until a signal arrives.
\<close>

lemma relay_starts:
  assumes "exec (loadIdentity lib relay_identityKeyPath) ids = Some (Ret (Inr priv))"
  shows "exec (relay_main lib)
    (ids @ [(QGetenv ''PORT'', Reply None (str_bytes port) 0),
      (QHostNew (relay_opts priv (if port = [] then ''4001'' else port)), Reply None (str_bytes h) 0),
      (QPrintln [AStr ''Relay PeerID:'', AStr h], r1), (QPrintln [AStr ''Relay listening on:''], r2),
      (QHostAddrs, Names addrs)] @ addr_lines addrs h @
     [(QPrintln [AStr (CHR 0x0A #
        ''Give one of the addresses above (with /p2p/<PeerID>) to both peer nodes as a static relay candidate.'')], r3),
      (QSignal, Reply None (str_bytes sig) 0), (QPrintln [AStr sig], r4),
      (QPrintln [AStr (CHR 0x0A # ''Shutting down relay.'')], r5), (QHostClose, r6)]) = Some (Ret ())"
  unfolding relay_main_def
  by (simp add: exec_or_fatal [OF assms] Let_def p2p_call_defs exec_print_addrs)

end
