(* ===== verification/Session_Typing.thy ===== *)
theory Session_Typing
  imports Controllers
begin

text \<open>
  A type discipline for sessions: which optional parts of a session are there in which state. The
  steps of both tables respect it (they neither panic nor leave the transition table), so that
  \<^verbatim>\<open>Run\<close>'s \<^verbatim>\<open>Transition\<close> never rejects what a step returns.
\<close>

section \<open>Results of a program\<close>

text \<open>\<open>returns P p\<close>: whatever the environment replies, \<open>p\<close> does not stop the process, and what it returns satisfies \<open>P\<close>.\<close>

primrec returns :: "('a \<Rightarrow> bool) \<Rightarrow> 'a io \<Rightarrow> bool" where
  "returns P (Ret x) = P x"
| "returns P (Halt h) = False"
| "returns P (Act q k) = (\<forall>r. reply_ok q r \<longrightarrow> returns P (k r))"

abbreviation safe :: "'a io \<Rightarrow> bool" where
  "safe \<equiv> returns (\<lambda>_. True)"

lemma returns_bind: "returns P (io_bind p f) = returns (\<lambda>x. returns P (f x)) p"
  by (induction p) simp_all

lemma returns_mono: "returns P p \<Longrightarrow> (\<And>x. P x \<Longrightarrow> Q x) \<Longrightarrow> returns Q p"
  by (induction p) simp_all

lemma returns_exec:
  assumes "returns P p" and "exec p es = Some p'"
  shows "returns P p'"
  using assms by (induction p es rule: exec.induct) (auto split: io.splits if_splits)

lemma safe_try: "safe p \<Longrightarrow> (\<And>e. P (h e)) \<Longrightarrow> (\<And>x. returns P (f x)) \<Longrightarrow> returns P (io_try p h f)"
  unfolding io_try_def returns_bind by (rule returns_mono) (auto split: sum.split)

lemma safe_then: "safe p \<Longrightarrow> (\<And>x. returns P (f x)) \<Longrightarrow> returns P (io_bind p f)"
  unfolding returns_bind by (rule returns_mono) auto

lemma safe_calls [simp]:
  "safe (ReadFull n)" "safe (ConnWrite b)" "safe (RandRead n)" "safe (MkdirAll p)" "safe (CreateFile p)"
  "safe (FileReadAt f n off)" "safe (FileWrite f b)" "safe (FileClose f)" "safe (Printf_nl fmt args)"
  by (auto simp: io_prim_defs split: option.split)

section \<open>Typed sessions\<close>

fun pending_in :: "Role \<Rightarrow> TransferState set" where
  "pending_in RoleSender = {StateWaitingLotteryTicket, StateSendKeyReveal}"
| "pending_in RoleReceiver = {StateSendLotteryTicket, StateWaitingKeyReveal, StateVerifyChunk}"

fun file_in :: "Role \<Rightarrow> TransferState \<Rightarrow> bool" where
  "file_in RoleSender st \<longleftrightarrow> True"
| "file_in RoleReceiver st \<longleftrightarrow> st \<notin> {StateIdle, StateReceiveHeader}"

fun state_of_role :: "Role \<Rightarrow> TransferState \<Rightarrow> bool" where
  "state_of_role RoleSender st \<longleftrightarrow> st = StateIdle \<or> sender_state st"
| "state_of_role RoleReceiver st \<longleftrightarrow> st = StateIdle \<or> receiver_state st"

definition typed :: "Session \<Rightarrow> bool" where
  "typed s \<longleftrightarrow>
     state_of_role (s_Role s) (s_state s) \<and>
     (s_PendingChunk s \<noteq> None \<longleftrightarrow> s_state s \<in> pending_in (s_Role s)) \<and>
     (\<forall>c. s_PendingChunk s = Some c \<longrightarrow> length (c_Nonce c) = NonceSize) \<and>
     (s_File s \<noteq> None \<longleftrightarrow> file_in (s_Role s) (s_state s))"

fun steps_of :: "digest \<Rightarrow> Role \<Rightarrow> StepTable" where
  "steps_of H RoleSender = senderSteps H"
| "steps_of H RoleReceiver = receiverSteps H"

text \<open>What a step promises: an error, or a next state the table allows and in which the session is typed.\<close>

fun typed_result :: "Session \<Rightarrow> Session \<times> TransferState go_result \<Rightarrow> bool" where
  "typed_result s (s', Inl e) = True"
| "typed_result s (s', Inr st) \<longleftrightarrow> isAllowed (s_state s) st \<and> typed (s'\<lparr>s_state := st\<rparr>)"

section \<open>The steps are well typed\<close>

lemma safe_readers [simp]:
  "safe ReadHeader" "safe ReadChunkRequest" "safe (ReadChunkResponse fid)" "safe ReadLotteryTicket"
  "safe ReadKeyReveal" "safe ReadRoot" "safe ReadFinalAck"
  unfolding read_defs by (auto intro!: safe_try safe_then simp: Let_def)

lemma returns_try:
  "returns (\<lambda>r. case r of Inl e \<Rightarrow> P (h e) | Inr x \<Rightarrow> returns P (f x)) p \<Longrightarrow> returns P (io_try p h f)"
  unfolding io_try_def returns_bind by (erule returns_mono) (auto split: sum.splits)

text \<open>A program whose value, when there is one, satisfies \<open>P\<close>.\<close>

abbreviation yields :: "('a \<Rightarrow> bool) \<Rightarrow> 'a go_result io \<Rightarrow> bool" where
  "yields P \<equiv> returns (\<lambda>r. case r of Inl _ \<Rightarrow> True | Inr x \<Rightarrow> P x)"

lemma yields_try:
  "yields A p \<Longrightarrow> (\<And>e. P (h e)) \<Longrightarrow> (\<And>x. A x \<Longrightarrow> returns P (f x)) \<Longrightarrow> returns P (io_try p h f)"
  by (rule returns_try, erule returns_mono) (auto split: sum.splits)

lemma yields_reads:
  "yields (\<lambda>b. length b = n) (ReadFull n)" "yields (\<lambda>b. length b = n) (RandRead n)"
  by (auto simp: ReadFull_def RandRead_def reply_bytes_def split: option.split)

lemma safe_readSentinel: "safe (readSentinel m name)"
  unfolding readSentinel_def by (auto intro!: safe_try)

lemma yields_ReadChunkResponse: "yields (\<lambda>c. length (c_Nonce c) = NonceSize) (ReadChunkResponse fid)"
  unfolding ReadChunkResponse_def
  by (auto intro!: safe_try [OF safe_readSentinel] yields_try [OF yields_reads(1)] simp: Let_def)

lemma yields_ReadChunkPlaintext: "yields (\<lambda>b. length b \<le> gcm_limit) (ReadChunkPlaintext f i n)"
proof -
  have "returns (\<lambda>(b, err). length b \<le> gcm_limit) (FileReadAt f (unat n) off)" for off
    using u32_le_gcm_limit by (auto simp: FileReadAt_def split: option.split)
  then show ?thesis
    unfolding ReadChunkPlaintext_def returns_bind
    by (rule returns_mono) (auto split: option.split)
qed

lemma yields_EncryptChunk:
  "length (c_Plaintext c) \<le> gcm_limit \<Longrightarrow> yields (\<lambda>c. length (c_Nonce c) = NonceSize) (EncryptChunk c)"
  unfolding EncryptChunk_def by (auto intro!: yields_try [OF yields_reads(2)] simp: Let_def)

lemma yields_BuildAndEncryptChunk:
  "length b \<le> gcm_limit \<Longrightarrow> yields (\<lambda>c. length (c_Nonce c) = NonceSize) (BuildAndEncryptChunk H fid i b)"
  unfolding BuildAndEncryptChunk_def Let_def GenerateRandomKey_def
  by (auto intro!: safe_try yields_try [OF yields_EncryptChunk] simp: NewChunk_def)

lemma safe_DecryptAndCheck: "length (c_Nonce c) = NonceSize \<Longrightarrow> safe (DecryptAndCheck H c)"
  by (auto simp: DecryptAndCheck_def Let_def split: option.split)

lemma sender_step_typed:
  assumes "typed s" "s_Role s = RoleSender" "senderSteps H (s_state s) = Some step"
  shows "returns (typed_result s) (step s)"
  using assms
  by (cases "s_state s")
    (auto simp: sender_step_defs send_defs Let_def root_of_built_tree typed_def isAllowed_iff AdvanceChunk_def
      intro!: safe_try safe_then yields_try [OF yields_ReadChunkPlaintext] yields_try [OF yields_BuildAndEncryptChunk]
      split: option.split)

lemma verifyMerkle_body_typed:
  "typed s \<Longrightarrow> s_Role s = RoleReceiver \<Longrightarrow> s_state s = StateVerifyMerkle \<Longrightarrow>
   returns (typed_result s) (verifyMerkle_body H s)"
  by (auto simp: verifyMerkle_body_def send_defs root_of_built_tree typed_def isAllowed_iff intro!: safe_try safe_then)

lemma receiver_step_typed:
  assumes "typed s" "s_Role s = RoleReceiver" "receiverSteps H (s_state s) = Some step"
  shows "returns (typed_result s) (step s)"
proof (cases "s_state s = StateVerifyMerkle")
  case True
  have "returns (\<lambda>result. returns (typed_result s) (io_bind (FileClose (s_File s)) (\<lambda>_. Ret result))) (verifyMerkle_body H s)"
    by (rule returns_mono [OF verifyMerkle_body_typed [OF assms(1,2) True]]) (simp add: safe_then)
  with assms(3) True show ?thesis by (auto simp: stepReceiverVerifyMerkle_def returns_bind)
next
  case False
  with assms show ?thesis
    by (cases "s_state s")
      (auto simp: receiver_step_defs(1-7) send_defs Let_def typed_def isAllowed_iff AdvanceChunk_def
        intro!: safe_try safe_then yields_try [OF yields_ReadChunkResponse] safe_DecryptAndCheck
        split: option.split sum.split)
qed

text \<open>The session is typed where a transfer starts.\<close>

lemma start_typed: "typed (NewSession RoleReceiver)" "typed (sender_session path fileID header)"
  by (simp_all add: typed_def NewSession_def sender_session_def)

text \<open>C17: the steps are well typed. A session has a pending chunk (with a nonce of the right length) exactly
  in the states between a chunk response and its key, and a receiver has its output file exactly after
  the header. From a session typed in this way, whatever the peer and the disk do, no step of either
  table panics or stops the process, and when it does not return an error it returns a state the
  transition table allows, in which the session is typed again. Both transfers start typed.\<close>

theorem steps_well_typed:
  assumes "typed s" and "steps_of H (s_Role s) (s_state s) = Some step" and "exec (step s) es = Some p"
  shows "(\<forall>h. p \<noteq> Halt h) \<and>
    (\<forall>s' st. p = Ret (s', Inr st) \<longrightarrow> isAllowed (s_state s) st \<and> typed (s'\<lparr>s_state := st\<rparr>)) \<and>
    typed (NewSession RoleReceiver) \<and> typed (sender_session path fileID header)"
proof -
  have "returns (typed_result s) (step s)"
    using assms(1,2) sender_step_typed receiver_step_typed by (cases "s_Role s") auto
  then have "returns (typed_result s) p" using assms(3) by (rule returns_exec)
  then show ?thesis by (auto simp: start_typed)
qed

end
