(* ===== verification/Shared_Disk.thy ===== *)
theory Shared_Disk
  imports Robustness Server_Client
begin

text \<open>
  The server runs its stream handler once per stream, all of them at the same time and on the same
  disk. Events of a run carry the number of their stream; each stream on its own is an execution of
  \<^verbatim>\<open>HandleStream\<close>, and they are mixed in any way. What is shared is the disk.
\<close>

section \<open>The disk\<close>

text \<open>
  What the calls do to the contents of files: \<^verbatim>\<open>os.Create\<close> empties the file, \<^verbatim>\<open>Write\<close> on the handle it
  returned appends, and a \<^verbatim>\<open>Write\<close> that fails leaves the bytes it reports to have written. A file is
  known by its path; two spellings of one path are two files here.
\<close>

fun disk_step :: "(string \<rightharpoonup> bytes) \<Rightarrow> event \<Rightarrow> (string \<rightharpoonup> bytes)" where
  "disk_step d (QFCreate p, r) = (if r_err r = None then d(p \<mapsto> []) else d)"
| "disk_step d (QFWrite p b, r) =
     d(p := map_option (\<lambda>c. c @ (if r_err r = None then b else take (nat (r_num r)) b)) (d p))"
| "disk_step d _ = d"

definition disk_after :: "(string \<rightharpoonup> bytes) \<Rightarrow> event list \<Rightarrow> (string \<rightharpoonup> bytes)" where
  "disk_after d es = foldl disk_step d es"

definition stream_events :: "nat \<Rightarrow> (nat \<times> event) list \<Rightarrow> event list" where
  "stream_events i es = map snd (filter (\<lambda>e. fst e = i) es)"

text \<open>The file an event changes.\<close>

fun changes :: "event \<Rightarrow> string option" where
  "changes (QFCreate p, r) = (if r_err r = None then Some p else None)"
| "changes (QFWrite p b, r) = Some p"
| "changes _ = None"

lemma disk_step_local:
  "changes e \<noteq> Some p \<Longrightarrow> disk_step d e p = d p"
  "d p = d' p \<Longrightarrow> disk_step d e p = disk_step d' e p"
  by (cases "(d, e)" rule: disk_step.cases; auto split: if_splits)+

lemma disk_after_filter:
  "d p = d' p \<Longrightarrow> disk_after d es p = disk_after d' (filter (\<lambda>e. changes e = Some p) es) p"
  unfolding disk_after_def
proof (induction es arbitrary: d d')
  case (Cons e es)
  show ?case
  proof (cases "changes e = Some p")
    case True
    with Cons.IH [of "disk_step d e" "disk_step d' e"] disk_step_local(2) [of d p d' e] Cons.prems show ?thesis by simp
  next
    case False
    with Cons.IH [of "disk_step d e" d'] Cons.prems show ?thesis by (simp add: disk_step_local(1))
  qed
qed simp

lemma disk_after_unchanged: "(\<And>e. e \<in> set es \<Longrightarrow> changes e \<noteq> Some p) \<Longrightarrow> disk_after d es p = d p"
  using disk_after_filter [of d p d es] by (simp add: disk_after_def cong: filter_cong)

text \<open>A file only one stream changes has the contents this stream alone would give it.\<close>

lemma disk_of_stream:
  assumes "\<And>j e. j \<noteq> i \<Longrightarrow> e \<in> set (stream_events j es) \<Longrightarrow> changes e \<noteq> Some p"
  shows "disk_after d (map snd es) p = disk_after d (stream_events i es) p"
proof -
  have "filter (\<lambda>e. changes e = Some p) (map snd es) = filter (\<lambda>e. changes e = Some p) (stream_events i es)"
    using assms
  proof (induction es)
    case (Cons x es)
    have "\<And>j e. j \<noteq> i \<Longrightarrow> e \<in> set (stream_events j es) \<Longrightarrow> changes e \<noteq> Some p"
      using Cons.prems by (auto simp: stream_events_def)
    moreover have "fst x \<noteq> i \<Longrightarrow> changes (snd x) \<noteq> Some p"
      using Cons.prems [of "fst x" "snd x"] by (simp add: stream_events_def)
    ultimately show ?case using Cons.IH by (auto simp: stream_events_def)
  qed (simp add: stream_events_def)
  then show ?thesis using disk_after_filter [of d p d] by metis
qed

section \<open>One reception\<close>

lemma exec_prefix: "exec p (es @ fs) = Some p' \<Longrightarrow> \<exists>q. exec p es = Some q"
  by (auto simp: exec_append split: Option.bind_splits)

lemma RecieveFile_files_ok:
  "exec (RecieveFile H fuel) (xs @ (q, r) # ys) = Some p \<Longrightarrow> watch_ok (receiver_writes H) (receiver_files H) (observed xs) q"
  using wp_watch_contract [OF RecieveFile_wp, of H fuel xs "(q, r)" ys] by simp

lemma g_cr_grows: "set (g_cr (observed xs)) \<subseteq> set (g_cr (observed (xs @ ys)))"
proof -
  have "set (g_cr g) \<subseteq> set (g_cr (foldl observe g ys))" for g
  proof (induction ys arbitrary: g)
    case (Cons e ys)
    have "set (g_cr g) \<subseteq> set (g_cr (observe g e))" by (cases "(g, e)" rule: observe.cases) auto
    with Cons.IH [of "observe g e"] show ?case by auto
  qed simp
  then show ?thesis by (simp add: observed_def)
qed

lemma RecieveFile_changes:
  assumes "exec (RecieveFile H fuel) es = Some q" and "e \<in> set es" and "changes e = Some p"
  shows "p \<in> set (g_cr (observed es))"
proof -
  obtain xs ys where es: "es = xs @ e # ys" using assms(2) by (meson split_list)
  have "p \<in> set (g_cr (observed (xs @ [e])))"
  proof (cases "fst e")
    case (QFCreate p')
    with assms(3) show ?thesis by (cases e) (auto simp: observed_def split: if_splits)
  next
    case (QFWrite p' b)
    with assms(1,3) RecieveFile_files_ok [of H fuel xs "fst e" "snd e" ys q] es show ?thesis
      by (cases e) (auto simp: observed_def receiver_stores_def)
  qed (use assms(3) in \<open>cases e; simp\<close>)+
  with g_cr_grows [of "xs @ [e]" ys] es show ?thesis by auto
qed

text \<open>A reception that succeeds has met no failure; one that writes has met none before.\<close>

lemma RecieveFile_stops:
  assumes "exec (RecieveFile H fuel) es = Some q" and "es = xs @ e # ys" and "failure e = Some err"
  shows "(\<forall>ev\<in>set ys. tidies (fst ev)) \<and> winds_down (run_stopped err) q"
  using fail_stop_exec [OF RecieveFile_fail_stop, of H fuel xs "fst e" "snd e" ys q err] assms by simp

lemma RecieveFile_no_failure:
  assumes "exec (RecieveFile H fuel) es = Some (Ret (Returned s None))" and "e \<in> set es"
  shows "failure e = None"
proof (cases "failure e")
  case (Some err)
  obtain xs ys where "es = xs @ e # ys" using assms(2) by (meson split_list)
  from RecieveFile_stops [OF assms(1) this Some] show ?thesis by (simp add: run_stopped_def)
qed

text \<open>The contents of the file a reception has created: what it has written, except that a write that fails may be cut short.\<close>

lemma RecieveFile_contents:
  assumes "exec (RecieveFile H fuel) es = Some q" and "g_cr (observed es) = [out]"
  shows "\<exists>c. disk_after d es out = Some c \<and> prefix c (concat (map snd (g_fw (observed es)))) \<and>
    ((\<forall>e\<in>set es. failure e = None) \<longrightarrow> c = concat (map snd (g_fw (observed es))))"
  using assms
proof (induction es arbitrary: q rule: rev_induct)
  case Nil
  then show ?case by (simp add: observed_def ghost_init_def)
next
  case (snoc e es)
  obtain rq r where e: "e = (rq, r)" by (cases e)
  obtain q' where q': "exec (RecieveFile H fuel) es = Some q'" using exec_prefix snoc.prems(1) by blast
  have ok: "watch_ok (receiver_writes H) (receiver_files H) (observed es) rq"
    using RecieveFile_files_ok [of H fuel es rq r "[]" q] snoc.prems(1) e by simp
  have obs: "observed (es @ [e]) = observe (observed es) (rq, r)" and
    disk: "disk_after d (es @ [e]) = disk_step (disk_after d es) (rq, r)"
    by (simp_all add: observed_def disk_after_def e)
  consider (create) p where "rq = QFCreate p" | (store) p b where "rq = QFWrite p b"
    | (other) "changes (rq, r) = None" "g_cr (observed (es @ [e])) = g_cr (observed es)"
        "g_fw (observed (es @ [e])) = g_fw (observed es)"
    unfolding obs by (cases rq) auto
  then show ?case
  proof cases
    case create
    with ok have "g_cr (observed es) = []" by (simp add: receiver_creates_def)
    moreover from this have "g_fw (observed es) = []"
      using RecieveFile_disk [OF q'] by (auto simp: disk_verified_def)
    ultimately show ?thesis using create snoc.prems(2) by (auto simp: obs disk split: if_splits)
  next
    case store
    with ok snoc.prems(2) have p: "p = out" and cr: "g_cr (observed es) = [out]"
      by (auto simp: obs receiver_stores_def)
    have "failure e' = None" if "e' \<in> set es" for e'
    proof (rule ccontr)
      assume "failure e' \<noteq> None"
      then obtain err where err: "failure e' = Some err" by blast
      from that obtain xs ys where "es = xs @ e' # ys" by (meson split_list)
      with RecieveFile_stops [OF snoc.prems(1), of xs e' "ys @ [e]"] err have "tidies (fst e)" by simp
      with store e show False by (simp add: tidies_def)
    qed
    with snoc.IH [OF q' cr] have "disk_after d es out = Some (concat (map snd (g_fw (observed es))))" by auto
    with store p e show ?thesis unfolding obs disk by (auto simp: take_is_prefix)
  next
    case other
    with snoc.IH [OF q'] snoc.prems(2) disk_step_local(1) [of "(rq, r)" out] show ?thesis
      by (auto simp: disk)
  qed
qed

section \<open>One stream\<close>

text \<open>Where an execution of a sequence of two programs stands.\<close>

lemma exec_bind_cases:
  assumes "exec (io_bind p f) es = Some p'"
  obtains (first) q where "exec p es = Some q" "p' = io_bind q f"
  | (second) xs ys x where "es = xs @ ys" "exec p xs = Some (Ret x)" "exec (f x) ys = Some p'"
proof -
  have "(\<exists>q. exec p es = Some q \<and> p' = io_bind q f) \<or>
      (\<exists>xs ys x. es = xs @ ys \<and> exec p xs = Some (Ret x) \<and> exec (f x) ys = Some p')"
    using assms
  proof (induction p arbitrary: es)
    case (Ret x)
    then show ?case by (intro disjI2 exI [of _ "[]"] exI [of _ es]) simp
  next
    case (Halt h)
    then show ?case by (cases es) auto
  next
    case (Act q k)
    show ?case
    proof (cases es)
      case (Cons e es')
      with Act.prems have e: "fst e = q" "reply_ok q (snd e)" and "exec (io_bind (k (snd e)) f) es' = Some p'"
        by (auto split: if_splits)
      from Act.IH [OF rangeI this(3)] show ?thesis
      proof (elim disjE exE conjE)
        fix xs ys x
        assume "es' = xs @ ys" "exec (k (snd e)) xs = Some (Ret x)" "exec (f x) ys = Some p'"
        with e Cons show ?thesis
          by (intro disjI2 exI [of _ "e # xs"] exI [of _ ys] exI [of _ x]) simp
      qed (use e Cons in simp)
    qed (use Act.prems in auto)
  qed
  then show thesis using first second by blast
qed

lemma observe_adds:
  "g_rd (observe g e) = g_rd g @ g_rd (observe ghost_init e)"
  "g_cr (observe g e) = g_cr g @ g_cr (observe ghost_init e)"
  "g_fw (observe g e) = g_fw g @ g_fw (observe ghost_init e)"
  by (cases "(g, e)" rule: observe.cases; simp add: ghost_init_def)+

lemma observed_append_fields:
  "g_rd (observed (xs @ ys)) = g_rd (observed xs) @ g_rd (observed ys)"
  "g_cr (observed (xs @ ys)) = g_cr (observed xs) @ g_cr (observed ys)"
  "g_fw (observed (xs @ ys)) = g_fw (observed xs) @ g_fw (observed ys)"
proof -
  have *: "g_rd (foldl observe g ys) = g_rd g @ g_rd (observed ys) \<and>
      g_cr (foldl observe g ys) = g_cr g @ g_cr (observed ys) \<and> g_fw (foldl observe g ys) = g_fw g @ g_fw (observed ys)" for g
  proof (induction ys rule: rev_induct)
    case (snoc e ys)
    with observe_adds [of "foldl observe g ys" e] observe_adds [of "foldl observe ghost_init ys" e] show ?case
      by (simp add: observed_def)
  qed (simp add: observed_def ghost_init_def)
  have "observed (xs @ ys) = foldl observe (observed xs) ys" by (simp add: observed_def)
  with * [of "observed xs"] show "g_rd (observed (xs @ ys)) = g_rd (observed xs) @ g_rd (observed ys)"
    "g_cr (observed (xs @ ys)) = g_cr (observed xs) @ g_cr (observed ys)"
    "g_fw (observed (xs @ ys)) = g_fw (observed xs) @ g_fw (observed ys)"
    by simp_all
qed

text \<open>Events that create no file and write to none.\<close>

fun file_change :: "req \<Rightarrow> bool" where
  "file_change (QFCreate p) = True"
| "file_change (QFWrite p b) = True"
| "file_change _ = False"

definition aside :: "event list \<Rightarrow> bool" where
  "aside es \<longleftrightarrow> (\<forall>e\<in>set es. \<not> file_change (fst e))"

lemma aside_simps [simp]: "aside []" "aside (xs @ ys) = (aside xs \<and> aside ys)" "aside [(q, r)] = (\<not> file_change q)"
  by (auto simp: aside_def)

lemma aside_changes: "aside es \<Longrightarrow> e \<in> set es \<Longrightarrow> changes e = None"
  by (cases e rule: changes.cases) (auto simp: aside_def)

lemma aside_observed:
  assumes "aside es"
  shows "g_cr (observed es) = []" and "g_fw (observed es) = []"
proof -
  have "g_cr (observed es) = [] \<and> g_fw (observed es) = []"
    using assms
  proof (induction es rule: rev_induct)
    case (snoc e es)
    then show ?case by (cases "fst e"; cases e) (auto simp: aside_def observed_def)
  qed (simp add: observed_def ghost_init_def)
  then show "g_cr (observed es) = []" and "g_fw (observed es) = []" by auto
qed

lemma aside_contract:
  assumes "wph X (watch cw (\<lambda>_ _. False)) p Q ghost_init" and "exec p es = Some p'"
  shows "aside es"
  unfolding aside_def
proof
  fix e
  assume "e \<in> set es"
  then obtain xs ys where "es = xs @ e # ys" by (meson split_list)
  with wp_watch_contract [OF assms(1), of xs e ys p'] assms(2) show "\<not> file_change (fst e)"
    by (cases "fst e") auto
qed

lemmas SendFile_aside = aside_contract [OF SendFile_wp]

text \<open>Programs that read nothing and change no file, and return a result that satisfies \<open>P\<close>.\<close>

fun reads :: "req \<Rightarrow> bool" where
  "reads (QRead n) = True"
| "reads _ = False"

primrec idly :: "('a \<Rightarrow> bool) \<Rightarrow> 'a io \<Rightarrow> bool" where
  "idly P (Ret x) = P x"
| "idly P (Halt h) = False"
| "idly P (Act q k) = (\<not> reads q \<and> \<not> file_change q \<and> (\<forall>r. idly P (k r)))"

definition hushed :: "event list \<Rightarrow> bool" where
  "hushed es \<longleftrightarrow> aside es \<and> g_rd (observed es) = []"

lemma hushed_simps [simp]: "hushed []" "hushed (xs @ ys) = (hushed xs \<and> hushed ys)"
  by (auto simp: hushed_def observed_append_fields) (simp_all add: observed_def ghost_init_def)

lemma hushed_call: "\<not> reads q \<Longrightarrow> \<not> file_change q \<Longrightarrow> hushed [(q, r)]"
  by (cases q) (simp_all add: hushed_def observed_def ghost_init_def)

lemma hushed_aside: "hushed es \<Longrightarrow> aside es"
  by (simp add: hushed_def)

lemma idly_exec: "idly P p \<Longrightarrow> exec p es = Some p' \<Longrightarrow> hushed es \<and> idly P p'"
proof (induction es arbitrary: p)
  case (Cons e es)
  then obtain q k where p: "p = Act q k" "fst e = q" and run: "exec (k (snd e)) es = Some p'"
    by (auto split: io.splits if_splits)
  with Cons.prems have "idly P (k (snd e))" "hushed [e]" by (cases e; auto intro: hushed_call)+
  with Cons.IH [OF _ run] hushed_simps(2) [of "[e]" es] show ?case by simp
qed simp

lemma idly_ends:
  "idly (\<lambda>out. out = BadRequest what e) (close_after (bad_request what e))"
  "idly (\<lambda>out. out = UnknownCommand) (close_after (io_bind (Println line) (\<lambda>_. Ret UnknownCommand)))"
  "idly (\<lambda>out. out = Sent res) (after_send res)"
  "idly (\<lambda>out. out = Received res) (after_receive res)"
  by (simp_all add: close_after_def bad_request_def after_send_def after_receive_def log_failure_def
      output_defs ConnClose_def ConnReset_def split: run_result.split option.split)

text \<open>A transfer between a line of output and an end.\<close>

lemma exec_transfer:
  assumes "exec (io_bind (Println line) (\<lambda>_. io_bind T k)) es = Some p" and "\<And>res. idly (\<lambda>out. out = c res) (k res)"
  shows "\<exists>pre mid post q. es = pre @ mid @ post \<and> hushed pre \<and> hushed post \<and> exec T mid = Some q \<and>
    (\<forall>out. p = Ret out \<longrightarrow> (\<exists>res. q = Ret res \<and> out = c res))"
proof (cases es)
  case Nil
  with assms(1) show ?thesis
    by (intro exI [of _ "[]"] exI [of _ T]) (auto simp: Println_def)
next
  case (Cons e es')
  with assms(1) have e: "hushed [e]" and run: "exec (io_bind T k) es' = Some p"
    by (cases e; auto simp: Println_def intro: hushed_call split: if_splits)+
  from run show ?thesis
  proof (cases rule: exec_bind_cases)
    case (first q)
    have "\<exists>res. q = Ret res \<and> out = c res" if "p = Ret out" for out
      using that first assms(2) by (cases q) (auto simp: dest: idly_exec [where es = "[]"], metis idly.simps(1))
    with first e Cons show ?thesis
      by (intro exI [of _ "[e]"] exI [of _ es'] exI [of _ "[]"] exI [of _ q]) simp
  next
    case (second xs ys res)
    with e Cons idly_exec [OF assms(2) second(3)] show ?thesis
      by (intro exI [of _ "[e]"] exI [of _ xs] exI [of _ ys] exI [of _ "Ret res"]) auto
  qed
qed

text \<open>The request, as it was read.\<close>

lemma read_request_wp:
  "wp (watch (\<lambda>_ _. True) (\<lambda>_ _. False)) (read_request remote)
     (\<lambda>x g. \<forall>ty path. x = Inr (ty, path) \<longrightarrow>
        g_rd g = PutUint32 ty @ PutUint32 (word_of_nat (length path)) @ str_bytes path) ghost_init"
  unfolding read_request_def
  by (auto simp: wp_bind wp_ReadFull PutUint32_Uint32 ghost_init_def) (metis PutUint32_Uint32 unat_eq_0)

lemmas read_request_aside = aside_contract [OF read_request_wp]

lemma exec_Ret_Some: "exec (Ret x) es = Some p \<Longrightarrow> es = [] \<and> p = Ret x"
  by (cases es) auto

text \<open>
  An execution of the handler that is not aside is a request for a \<^verbatim>\<open>POST\<close>, an execution of
  \<^verbatim>\<open>RecieveFile\<close>, and the end of the stream.
\<close>

definition posting :: "digest \<Rightarrow> nat \<Rightarrow> event list \<Rightarrow> outcome io \<Rightarrow> bool" where
  "posting H fuel es p \<longleftrightarrow>
     (\<exists>pre mid post path q. es = pre @ mid @ post \<and> aside pre \<and> aside post \<and> g_rd (observed post) = [] \<and>
        g_rd (observed pre) = PutUint32 1 @ PutUint32 (word_of_nat (length path)) @ path \<and>
        exec (RecieveFile H fuel) mid = Some q \<and> (\<forall>res. p = Ret (Received res) \<longrightarrow> q = Ret res))"

lemma answer_posting:
  assumes "exec (answer_request H fuel x) es = Some p"
  shows "aside es \<and> (\<forall>res. p \<noteq> Ret (Received res)) \<or>
    (\<exists>path pre mid post q. x = Inr (1, path) \<and> es = pre @ mid @ post \<and> hushed pre \<and> hushed post \<and>
       exec (RecieveFile H fuel) mid = Some q \<and> (\<forall>res. p = Ret (Received res) \<longrightarrow> q = Ret res))"
proof -
  consider (bad) what e where "x = Inl (what, e)" | (get) path where "x = Inr (0, path)"
    | (post) path where "x = Inr (1, path)" | (other) ty path where "x = Inr (ty, path)" "ty \<noteq> 0" "ty \<noteq> 1"
    by (metis sum.exhaust surj_pair)
  then show ?thesis
  proof cases
    case bad
    with assms idly_exec [OF idly_ends(1), of what e es p] show ?thesis
      by (auto simp: answer_request_def dest: hushed_aside)
  next
    case other
    with assms idly_exec [OF idly_ends(2), of "[AStr ''Unknown command'']" es p] show ?thesis
      by (auto simp: answer_request_def dest: hushed_aside)
  next
    case get
    obtain line where "answer_request H fuel x = io_bind (Println line) (\<lambda>_. io_bind (SendFile H fuel path) after_send)"
      using answer_request_parts(1) get by metis
    with assms have "exec (io_bind (Println line) (\<lambda>_. io_bind (SendFile H fuel path) after_send)) es = Some p" by simp
    from exec_transfer [where c = Sent, OF this idly_ends(3)] show ?thesis
      by (auto dest: hushed_aside SendFile_aside)
  next
    case post
    obtain line where "answer_request H fuel x = io_bind (Println line) (\<lambda>_. io_bind (RecieveFile H fuel) after_receive)"
      using answer_request_parts(2) post by metis
    with assms have "exec (io_bind (Println line) (\<lambda>_. io_bind (RecieveFile H fuel) after_receive)) es = Some p" by simp
    from exec_transfer [where c = Received, OF this idly_ends(4)] obtain pre mid tail q
      where "es = pre @ mid @ tail" "hushed pre" "hushed tail" "exec (RecieveFile H fuel) mid = Some q"
        "\<forall>out. p = Ret out \<longrightarrow> (\<exists>res. q = Ret res \<and> out = Received res)"
      by blast
    then show ?thesis unfolding post by (intro disjI2 exI [of _ path] exI [of _ pre] exI [of _ mid] exI [of _ tail] exI [of _ q]) auto
  qed
qed

lemma answer_request_not_Ret: "answer_request H fuel x \<noteq> Ret out"
  by (cases x) (auto simp: answer_request_def close_after_def bad_request_def output_defs split: if_splits)

lemma HandleStream_posting:
  assumes "exec (HandleStream remote H fuel) es = Some p"
  shows "aside es \<and> (\<forall>res. p \<noteq> Ret (Received res)) \<or> posting H fuel es p"
  using assms unfolding HandleStream_parts
proof (cases rule: exec_bind_cases)
  case (first q)
  then show ?thesis
    by (cases q) (auto simp: answer_request_not_Ret dest: read_request_aside)
next
  case (second xs ys x)
  note aside = read_request_aside [OF second(2)]
  from answer_posting [OF second(3)] show ?thesis
  proof (elim disjE conjE exE)
    fix path pre mid post q
    assume x: "x = Inr (1, path)" and ys: "ys = pre @ mid @ post" and hushed: "hushed pre" "hushed post"
      and run: "exec (RecieveFile H fuel) mid = Some q" and res: "\<forall>res. p = Ret (Received res) \<longrightarrow> q = Ret res"
    have rd: "g_rd (observed xs) = PutUint32 1 @ PutUint32 (word_of_nat (length (str_bytes path))) @ str_bytes path"
      using wp_watch_result [OF read_request_wp second(2)] x by simp
    have "es = (xs @ pre) @ mid @ post" "aside (xs @ pre)" "aside post" "g_rd (observed post) = []"
      "g_rd (observed (xs @ pre)) = g_rd (observed xs)"
      using second(1) ys hushed aside by (simp_all add: hushed_def observed_append_fields)
    with rd run res show ?thesis unfolding posting_def by metis
  qed (use second(1) aside in simp)
qed

lemma HandleStream_changes:
  assumes "exec (HandleStream remote H fuel) es = Some p" and "e \<in> set es" and "changes e = Some path"
  shows "path \<in> set (g_cr (observed es))"
  using HandleStream_posting [OF assms(1)]
proof
  assume "posting H fuel es p"
  then obtain pre mid post q where es: "es = pre @ mid @ post" and aside: "aside pre" "aside post"
    and run: "exec (RecieveFile H fuel) mid = Some q" unfolding posting_def by blast
  with assms(2,3) have "e \<in> set mid" by (auto dest: aside_changes)
  from RecieveFile_changes [OF run this assms(3)] show ?thesis by (simp add: es observed_append_fields)
qed (use assms(2,3) in \<open>auto dest: aside_changes\<close>)

text \<open>
  The file of a stream: the blocks of the chunks it accepted, all of them when the transfer has
  succeeded; its messages are what the stream has read after the request.
\<close>

definition received_so_far :: "digest \<Rightarrow> event list \<Rightarrow> string \<Rightarrow> MetaData \<Rightarrow> Chunk list \<Rightarrow> bool" where
  "received_so_far H es out h cs \<longleftrightarrow>
     out = output_path h \<and> header_ok h \<and> (\<forall>i<length cs. accepted_chunk H (h_FileID h) i (cs ! i)) \<and>
     (\<exists>path. prefix (PutUint32 1 @ PutUint32 (word_of_nat (length path)) @ path @ HeaderBytes h @ chunk_stream cs)
       (g_rd (observed es)))"

lemma HandleStream_contents:
  assumes "exec (HandleStream remote H fuel) es = Some p" and "g_cr (observed es) = [out]"
  shows "\<exists>c. disk_after d es out = Some c \<and>
    (c = [] \<or> (\<exists>h cs. received_so_far H es out h cs \<and> prefix c (concat (map c_Plaintext cs)))) \<and>
    (\<forall>s. p = Ret (Received (Returned s None)) \<longrightarrow>
      (\<exists>h cs. received_so_far H es out h cs \<and> length cs = unat (h_Reps h) \<and> c = concat (map c_Plaintext cs)))"
proof -
  have "\<not> aside es" using assms(2) aside_observed(1) by force
  with HandleStream_posting [OF assms(1)] obtain pre mid post path q where es: "es = pre @ mid @ post"
    and aside: "aside pre" "aside post" and rd_post: "g_rd (observed post) = []"
    and rd_pre: "g_rd (observed pre) = PutUint32 1 @ PutUint32 (word_of_nat (length path)) @ path"
    and run: "exec (RecieveFile H fuel) mid = Some q" and res: "\<forall>res. p = Ret (Received res) \<longrightarrow> q = Ret res"
    unfolding posting_def by blast
  have rd: "g_rd (observed es) = PutUint32 1 @ PutUint32 (word_of_nat (length path)) @ path @ g_rd (observed mid)"
    by (simp add: es observed_append_fields rd_pre rd_post)
  have cr: "g_cr (observed mid) = [out]"
    using assms(2) aside_observed(1) aside by (simp add: es observed_append_fields)
  have disk: "disk_after d es out = disk_after d mid out"
    using disk_after_filter [of d out d es] disk_after_filter [of d out d mid] aside_changes [OF aside(1)] aside_changes [OF aside(2)]
    by (simp add: es cong: filter_cong)
  have so_far: "received_so_far H es out h cs"
    if "g_cr (observed mid) = [output_path h]" "header_ok h" "\<forall>i<length cs. accepted_chunk H (h_FileID h) i (cs ! i)"
      "prefix (HeaderBytes h @ chunk_stream cs) (g_rd (observed mid))" for h cs
    unfolding received_so_far_def using that cr rd by (auto intro!: exI [of _ path])
  obtain c where c: "disk_after d mid out = Some c" "prefix c (concat (map snd (g_fw (observed mid))))"
    and all: "(\<forall>e\<in>set mid. failure e = None) \<longrightarrow> c = concat (map snd (g_fw (observed mid)))"
    using RecieveFile_contents [OF run cr, of d] by blast
  show ?thesis
  proof (intro exI [of _ c] conjI allI impI)
    show "disk_after d es out = Some c" using disk c by simp
    show "c = [] \<or> (\<exists>h cs. received_so_far H es out h cs \<and> prefix c (concat (map c_Plaintext cs)))"
      using RecieveFile_disk [OF run] c(2) so_far by (fastforce simp: disk_verified_def stored_def comp_def)
    fix s
    assume "p = Ret (Received (Returned s None))"
    with res run have fin: "exec (RecieveFile H fuel) mid = Some (Ret (Returned s None))" by simp
    have "failure e = None" if "e \<in> set mid" for e
      using RecieveFile_no_failure [OF fin that] .
    with all have "c = concat (map snd (g_fw (observed mid)))" by blast
    moreover obtain h cs where "header_ok h" and len: "length cs = unat (h_Reps h)"
      and "\<forall>i<length cs. accepted_chunk H (h_FileID h) i (cs ! i)"
      and "prefix (HeaderBytes h @ chunk_stream cs) (g_rd (observed mid))"
      and "g_cr (observed mid) = [output_path h]" and fw: "g_fw (observed mid) = stored h cs"
      using RecieveFile_history [OF fin] by auto
    then have "received_so_far H es out h cs" by (intro so_far)
    ultimately
    show "\<exists>h cs. received_so_far H es out h cs \<and> length cs = unat (h_Reps h) \<and> c = concat (map c_Plaintext cs)"
      using len fw by (auto simp: stored_def comp_def)
  qed
qed

section \<open>All streams\<close>


end
