(* ===== verification/Scenario_Programs.thy ===== *)
theory Scenario_Programs
  imports Scenario Programs Relay Session_Typing Shared_Disk
begin

text \<open>
  Concrete runs of the programs around the transfer: requests, host set-up, identities, a
  reservation, the start of server and client. The properties of those theories are instantiated
  here. The library of the scenario marshals a key by putting a type byte before it, and takes every
  text for the address of a peer of that name.
\<close>

section \<open>Requests\<close>

theorem request_reaches_handler_witness:
  "feed (HandleStream ''QmClient'' zero_digest 9) (RequestBytes ''f'' ''GET'' @ []) =
     feed (io_bind (SendFile zero_digest 9 ''f'') (\<lambda>res. io_bind (log_failure ''SendFile failed:'' res) (\<lambda>_.
       io_bind ConnClose (\<lambda>_. Ret (Sent res))))) [] \<and>
   feed (HandleStream ''QmClient'' zero_digest 9) (PutUint32 2 @ PutUint32 (word_of_nat (length ''f'')) @ str_bytes ''f'' @ []) =
     (io_bind ConnClose (\<lambda>_. Ret UnknownCommand), [])"
  using request_reaches_handler [of "''f''" 2 "''QmClient''" zero_digest 9 "[]"] by simp

lemma demo_exchange:
  "length (zero_digest x) = HashSize"
  "m_files (demo_machine [''f'' \<mapsto> [7]]) ''f'' = Some [7]"
  "chunk_count (Suc 0) = 1"
  by (simp_all add: zero_digest_def demo_machine_def chunk_count_def)

theorem GET_delivers_witness:
  "settles (system (HandleStream ''QmClient'' zero_digest 8) (demo_machine [''f'' \<mapsto> [7]])
      (client_stream zero_digest 9 ''GET'' ''f'') (demo_machine Map.empty) [] [])
    (file_copied (demo_machine [''f'' \<mapsto> [7]]) (demo_machine Map.empty) ''f'' [7])"
  by (rule GET_delivers) (simp_all add: demo_exchange)

theorem POST_delivers_witness:
  "settles (system (client_stream zero_digest 8 ''POST'' ''f'') (demo_machine [''f'' \<mapsto> [7]])
      (HandleStream ''QmClient'' zero_digest 9) (demo_machine Map.empty) [] [])
    (file_copied (demo_machine [''f'' \<mapsto> [7]]) (demo_machine Map.empty) ''f'' [7])"
  by (rule POST_delivers) (simp_all add: demo_exchange)

theorem GET_missing_file_stops_server_witness:
  "exec (HandleStream ''QmClient'' zero_digest 9)
      [(QPrintln [AStr ''Received a stream from peer:'', AStr ''QmClient''], got []),
       (QRead 4, Reply None (PutUint32 0) 0), (QRead 4, Reply None (PutUint32 (word_of_nat (length ''f''))) 0),
       (QRead (length ''f''), Reply None (str_bytes ''f'') 0),
       (QPrintf (''The typ is %d and path is %s : whattodoheader received correctly'' @ [CHR 0x0A]) [AU32 0, AStr ''f''], got []),
       (QPrintln [AStr ''Stream handler: GET, starting SendFile''], got []),
       (QFOpen ''f'', Reply (Some EOF) [] 0)] =
    Some (Halt (Fatal ''Error reading the file:'' EOF))"
  by (rule GET_missing_file_stops_server) simp_all

theorem peer_chooses_buffer_witness:
  "(\<exists>k. feed (HandleStream ''QmClient'' zero_digest 9) (PutUint32 0 @ PutUint32 4294967295) = (Act (QRead 4294967295) k, [])) \<and>
   (\<exists>k. feed (ReadChunkResponse (replicate 32 0)) ([msgChunkResponse] @ PutUint32 0 @ PutUint32 4294967295) =
     (Act (QRead 4294967295) k, []))"
  using peer_chooses_buffer [of 4294967295 "replicate 32 0" "''QmClient''" zero_digest 9 0 0 0] by simp

text \<open>A \<^verbatim>\<open>POST\<close> on stream 0, and stream 1 at the beginning of a request.\<close>

definition demo_hello :: event where
  "demo_hello = (QPrintln [AStr ''Received a stream from peer:'', AStr ''QmClient''], got [])"

definition demo_post :: "event list" where
  "demo_post = [demo_hello, (QRead 4, got (PutUint32 1)), (QRead 4, got (PutUint32 (word_of_nat (length ''f'')))),
     (QRead (length ''f''), got (str_bytes ''f'')),
     printed ''The typ is %d and path is %s : whattodoheader received correctly'' [AU32 1, AStr ''f''],
     (QPrintln [AStr ''Stream handler: POST, starting RecieveFile''], got [])] @ demo_receiver_run @ [(QClose, got [])]"

definition demo_streams :: "(nat \<times> event) list" where
  "demo_streams = (1, demo_hello) # map (Pair 0) demo_post"

lemma exec_demo_post:
  "exec (HandleStream ''QmClient'' zero_digest 9) demo_post =
     Some (Ret (Received (Returned (rdemo StateFinished None [replicate 32 0]) None)))"
proof -
  let ?req = "[demo_hello, (QRead 4, got (PutUint32 1)), (QRead 4, got (PutUint32 (word_of_nat (length ''f'')))),
     (QRead (length ''f''), got (str_bytes ''f'')),
     printed ''The typ is %d and path is %s : whattodoheader received correctly'' [AU32 1, AStr ''f''],
     (QPrintln [AStr ''Stream handler: POST, starting RecieveFile''], got [])]"
  have 1: "exec (HandleStream ''QmClient'' zero_digest 9) ?req = Some (io_bind (RecieveFile zero_digest 9) after_receive)"
    by (simp add: HandleStream_def close_after_transfer [symmetric] close_after_def ReadFull_def reply_bytes_def
        output_defs demo_hello_def printed_def)
  have 2: "exec (RecieveFile zero_digest 9) demo_receiver_run =
      Some (Ret (Returned (rdemo StateFinished None [replicate 32 0]) None))"
    using demo_receiver [of 0] by simp
  show ?thesis
    unfolding demo_post_def exec_then [OF 1] exec_then [OF exec_bind [OF 2]] by (simp add: after_receive_def log_failure_def ConnClose_def)
qed

lemma demo_streams_events:
  "stream_events 0 demo_streams = demo_post" "stream_events 1 demo_streams = [demo_hello]"
  "j \<notin> {0, 1} \<Longrightarrow> stream_events j demo_streams = []"
  by (auto simp: stream_events_def demo_streams_def filter_map comp_def filter_empty_conv)


text \<open>A stream that ends before the request.\<close>

definition demo_cut_off :: "event list" where
  "demo_cut_off =
     [demo_hello, (QRead 4, Reply (Some EOF) [] 0),
      (QLogln [AStr ''Couldn't read typ in whattodoheader:'', AErr EOF], got []), (QReset, got []), (QClose, got [])]"


lemma demo_entries: "clean_entry ''/a''" "clean_entry ''/b''"
  by (auto intro!: visible_entry simp: visible_def)

section \<open>Sessions\<close>

theorem steps_well_typed_witness:
  "typed (NewSession RoleReceiver) \<and> isAllowed StateIdle StateReceiveHeader \<and>
   typed ((NewSession RoleReceiver)\<lparr>s_state := StateReceiveHeader\<rparr>)"
  using steps_well_typed [of "NewSession RoleReceiver" zero_digest stepReceiverIdle "[]"
      "stepReceiverIdle (NewSession RoleReceiver)" "''f''" "[]" demo_header]
  by (simp add: stepReceiverIdle_def start_typed) (simp add: NewSession_def)

section \<open>Hosts\<close>

definition demo_lib :: libp2p where
  "demo_lib =
     \<lparr>NewMultiaddr = Inr, AddrInfoFromP2pAddr = (\<lambda>a. Inr \<lparr>ai_ID = a, ai_Addrs = [a]\<rparr>),
      MarshalPrivateKey = (\<lambda>k. Inr (1 # k)),
      UnmarshalPrivateKey = (\<lambda>d. case d of [] \<Rightarrow> Inl EOF | _ # k \<Rightarrow> Inr k)\<rparr>"

lemma demo_lib_inverse: "marshal_inverse demo_lib"
  by (auto simp: marshal_inverse_def demo_lib_def)

definition demo_create :: "event list" where
  "demo_create =
     [(QReadFile ''k'', Reply (Some EOF) [] 0), (QGenerateKeyPair, got [5]), (QWriteFile ''k'' [1, 5] 384, got [])]"

lemma exec_demo_create: "exec (LoadOrCreateIdentity demo_lib ''k'') demo_create = Some (Ret (Inr [5]))"
  by (simp add: LoadOrCreateIdentity_def demo_create_def demo_lib_def p2p_call_defs io_try_def)


theorem relay_identity_moves_witness:
  "\<exists>t. exec (loadIdentity demo_lib ''other'') [(QGetenv ''RELAY_PRIVKEY_B64'', Reply None (str_bytes t) 0)] =
     Some (Ret (Inr [5]))"
proof -
  let ?es = "[(QReadFile ''k'', Reply (Some EOF) [] 0), (QGenerateKeyPair, got [5]), (QWriteFile ''k'' [1, 5] 384, got []),
      (QPrintln [AStr (''No RELAY_PRIVKEY_B64 set '' @ em_dash @ '' generated/loaded identity from disk instead.'')], got []),
      (QPrintln [AStr ''To keep this PeerID stable across Render restarts/redeploys, copy the''], got []),
      (QPrintln [AStr ''following into a Render env var named RELAY_PRIVKEY_B64 (mark it Secret):''], got []),
      (QPrintln [AStr (EncodeToString [1, 5])], got []), (QPrintln [], got [])]"
  have "exec (loadIdentity demo_lib ''k'') ((QGetenv ''RELAY_PRIVKEY_B64'', Reply None [] 0) # ?es) = Some (Ret (Inr [5]))"
    by (simp add: loadIdentity_def announce_key_def LoadOrCreateIdentity_def demo_lib_def p2p_call_defs io_try_def bytes_str_def)
  moreover have "MarshalPrivateKey demo_lib k \<noteq> Inr []" for k by (simp add: demo_lib_def)
  ultimately show ?thesis
    using relay_identity_moves [where lib = demo_lib and p = "''k''" and k = "[5]" and p' = "''other''", OF demo_lib_inverse]
    by blast
qed

definition demo_relay :: AddrInfo where
  "demo_relay = \<lparr>ai_ID = ''/r'', ai_Addrs = [''/r'']\<rparr>"

definition demo_host :: "host_option list \<Rightarrow> event list" where
  "demo_host opts =
     [(QHostNew opts, got (str_bytes ''S'')), (QSubscribe, got []), (QGo GoIdentifyLog, got []),
      (QConnect demo_relay, got []), (QReserve demo_relay, Reply None [] 100),
      (QPrintf (''reserved a slot on relay %s (expires %s)'' @ [CHR 0x0A]) [AStr ''/r'', ATime 100], got []),
      (QGo (GoKeepReservationAlive demo_relay 100), got [])]"

lemma exec_demo_host:
  "exec (NewHost k addrs [demo_relay]) (demo_host (host_opts k addrs)) = Some (Ret (Inr ''S''))"
  by (simp add: NewHost_def demo_host_def LogIdentifyEvents_def p2p_call_defs io_try_def demo_relay_def)

theorem NewHost_reservations_witness:
  "kept (demo_host (host_opts [5] [''/l''])) = [(demo_relay, 100)] \<and>
   granted (demo_host (host_opts [5] [''/l''])) = [(demo_relay, 100)]"
  using NewHost_reservations [of "[5]" "[''/l'']" "[demo_relay]" "demo_host (host_opts [5] [''/l''])" "''S''" EOF]
    exec_demo_host [of "[5]" "[''/l'']"]
  by (simp add: demo_host_def)

section \<open>A reservation\<close>

text \<open>Two renewals: one at once, one at the second attempt.\<close>

definition demo_round :: "int go_result \<Rightarrow> renewal_round" where
  "demo_round res = \<lparr>oversleep = 0, latency = Second, reserved = res, oversleep_retry = 0\<rparr>"

definition demo_rounds :: "renewal_round list" where
  "demo_rounds = [demo_round (Inr (1000 * Second)), demo_round (Inl EOF), demo_round (Inr (2000 * Second))]"

lemma demo_round_fields [simp]:
  "oversleep (demo_round x) = 0" "latency (demo_round x) = Second" "reserved (demo_round x) = x"
  "oversleep_retry (demo_round x) = 0"
  by (simp_all add: demo_round_def)

lemma demo_attempt:
  "- (2 ^ 62) \<le> expiration s - clock s \<Longrightarrow> attempt_at s (demo_round x) =
     clock s + max (5 * Second) (min (2 ^ 63 - 1) (expiration s - clock s) - 30 * Second)"
  by (simp add: attempt_at_value demo_round_def)

lemma demo_renew [simp]:
  "clock (renew_round demo_relay s (demo_round (Inr e))) = attempt_at s (demo_round (Inr e)) + Second"
  "clock (renew_round demo_relay s (demo_round (Inl x))) = attempt_at s (demo_round (Inl x)) + 11 * Second"
  "expiration (renew_round demo_relay s (demo_round (Inr e))) = e"
  "expiration (renew_round demo_relay s (demo_round (Inl x))) = expiration s"
  by (simp_all add: renew_round_simps demo_round_def)

text \<open>The reservation before each round.\<close>

definition demo_state :: "nat \<Rightarrow> reservation" where
  "demo_state n = keepReservationAlive demo_relay (100 * Second) 0 (take n demo_rounds)"

lemma demo_states:
  "demo_state 0 = \<lparr>clock = 0, expiration = 100 * Second, renewal_log = []\<rparr>"
  "demo_state 1 = renew_round demo_relay (demo_state 0) (demo_round (Inr (1000 * Second)))"
  "demo_state 2 = renew_round demo_relay (demo_state 1) (demo_round (Inl EOF))"
  by (simp_all add: demo_state_def demo_rounds_def keepReservationAlive_def numeral_2_eq_2)

lemma demo_times:
  "attempt_at (demo_state 0) (demo_round x) = 70 * Second" "clock (demo_state 1) = 71 * Second"
  "expiration (demo_state 1) = 1000 * Second" "attempt_at (demo_state 1) (demo_round x) = 970 * Second"
  "clock (demo_state 2) = 981 * Second" "expiration (demo_state 2) = 1000 * Second"
  "attempt_at (demo_state 2) (demo_round x) = 986 * Second"
proof -
  show 0: "attempt_at (demo_state 0) (demo_round x) = 70 * Second" for x
    by (subst demo_attempt) (simp_all add: demo_states Second_def)
  show 1: "clock (demo_state 1) = 71 * Second" "expiration (demo_state 1) = 1000 * Second"
    unfolding demo_states(2) by (simp_all only: demo_renew 0)
  show 2: "attempt_at (demo_state 1) (demo_round x) = 970 * Second" for x
    by (subst demo_attempt) (simp_all add: 1 del: One_nat_def, simp_all add: Second_def)
  show 3: "clock (demo_state 2) = 981 * Second" "expiration (demo_state 2) = 1000 * Second"
    unfolding demo_states(3) by (simp_all only: demo_renew 1 2)
  show "attempt_at (demo_state 2) (demo_round x) = 986 * Second"
    by (subst demo_attempt) (simp_all add: 3, simp_all add: Second_def)
qed


section \<open>Server and client\<close>

lemma demo_relays: "StaticRelayAddrs demo_lib (splitNonEmpty ''/r'') = Inr [demo_relay]"
proof -
  have "clean_entry ''/r''" by (rule visible_entry) (simp_all add: visible_def)
  then have "splitNonEmpty ''/r'' = [''/r'']"
    by (simp add: splitNonEmpty_eq split_commas_single clean_entry_def)
  then show ?thesis by (simp add: StaticRelayAddrs_def demo_lib_def demo_relay_def)
qed


definition demo_peer :: AddrInfo where
  "demo_peer = \<lparr>ai_ID = ''/t'', ai_Addrs = [''/t'']\<rparr>"

definition demo_args :: "string list" where
  "demo_args = [''client'', ''post'', ''f'', ''/t'']"

definition demo_dial :: "event list" where
  "demo_dial =
     [(QGenerateKeyPair, got [5]), (QGetenv ''RELAY_ADDRS'', got []),
      (QHostNew (host_opts [5] ClientListenAddrs), got (str_bytes ''C'')), (QSubscribe, got []), (QGo GoIdentifyLog, got []),
      (QConnect demo_peer, got []), (QPrintln [AStr ''libp2p connection established with'', AStr ''/t''], got []),
      (QGo (GoWatch (Some (10 * Second)) ''/t'' (10 * Second)), got []), (QSleep (3 * Second), got []),
      (QNewStream ''/t'' ProtocolID, got [])]"

definition demo_reached :: event where
  "demo_reached = (QPrintln [AStr ''Reached POST method in client.go''], got [])"

lemma demo_method: "ToUpper id ''post'' = ''POST''"
  by code_simp

lemma exec_demo_dial:
  "exec (client_main demo_lib id zero_digest 9 demo_args) demo_dial =
     Some (io_bind (client_stream zero_digest 9 ''POST'' ''f'') (\<lambda>out. io_bind HostClose (\<lambda>_. Ret out)))"
  by (simp add: client_main_def demo_args_def demo_method client_run_def client_dial_def demo_dial_def demo_peer_def
      GenerateEphemeralIdentity_def NewHost_def LogIdentifyEvents_def io_try_def p2p_call_defs demo_lib_def
      StaticRelayAddrs_def client_splitNonEmpty_def bytes_str_def)

theorem client_connects_first_witness:
  "\<exists>info as r1 r2 bs. target demo_lib ''/t'' = Some info \<and>
     demo_dial @ [demo_reached] = as @ (QNewStream (ai_ID info) ProtocolID, r2) # bs \<and> (QConnect info, r1) \<in> set as"
proof -
  have "exec (client_main demo_lib id zero_digest 9 demo_args)
      ((demo_dial @ [demo_reached]) @ (QWrite (RequestBytes ''f'' ''POST''), got []) # []) \<noteq> None"
    by (simp add: exec_append exec_demo_dial client_stream_def close_after_def RequestFile_def ConnWrite_def Println_def
        demo_reached_def)
  then obtain p where "exec (client_main demo_lib id zero_digest 9 demo_args)
      ((demo_dial @ [demo_reached]) @ (QWrite (RequestBytes ''f'' ''POST''), got []) # []) = Some p" by blast
  from client_connects_first [OF this] show ?thesis by (auto simp: demo_args_def)
qed

theorem client_delivers_witness:
  "\<exists>p. exec (client_main demo_lib id zero_digest 9 demo_args)
      (client_setup [5] []
        [(QHostNew (host_opts [5] ClientListenAddrs), got (str_bytes ''C'')), (QSubscribe, got []), (QGo GoIdentifyLog, got [])]
        demo_peer) = Some p \<and>
    settles (system p (demo_machine [''f'' \<mapsto> [7]]) (HandleStream ''QmClient'' zero_digest 9) (demo_machine Map.empty) [] [])
      (file_copied (demo_machine [''f'' \<mapsto> [7]]) (demo_machine Map.empty) ''f'' [7])"
proof -
  have 1: "exec (NewHost [5] ClientListenAddrs [])
      [(QHostNew (host_opts [5] ClientListenAddrs), got (str_bytes ''C'')), (QSubscribe, got []), (QGo GoIdentifyLog, got [])] =
      Some (Ret (Inr ''C''))"
    by (simp add: NewHost_def LogIdentifyEvents_def p2p_call_defs io_try_def)
  have 2: "target demo_lib (demo_args ! 3) = Some demo_peer" by (simp add: target_def demo_lib_def demo_args_def demo_peer_def)
  have 3: "StaticRelayAddrs demo_lib (client_splitNonEmpty []) = Inr []"
    by (simp add: StaticRelayAddrs_def client_splitNonEmpty_def)
  have 4: "ToUpper id (demo_args ! 1) = ''POST''" "demo_args ! 2 = ''f''" "4 \<le> length demo_args"
    by (simp_all add: demo_args_def demo_method)
  show ?thesis
    using client_delivers [where H = zero_digest and content = "[7]" and f = 9 and up = id and args = demo_args
        and server = "demo_machine Map.empty" and client = "demo_machine [''f'' \<mapsto> [7]]", OF _ _ _ _ _ 3 1 2]
    by (auto simp: demo_exchange 4 simp del: One_nat_def)
qed

end
