(* ===== verification/Spec2Isabelle.thy ===== *)
theory Spec2Isabelle
  imports Scenario_Programs
begin

text \<open>
  \<^bold>\<open>A verification development for the libp2p file transfer.\<close>

  The program moves one file between two peers over a libp2p stream. The file is cut into chunks of
  32 KiB; each chunk is encrypted under a key of its own, and the key is revealed only after the
  receiver has acknowledged the ciphertext with a ``lottery ticket''; a commitment ties the key and
  the plaintext to the response, and a Merkle root over all chunks ends the transfer.

  \<^bold>\<open>Parts of the program and where they are modelled.\<close>

  \<^item> \<^verbatim>\<open>src/Protocol\<close> (states, transition table, session, driver) is theory \<open>Protocol\<close>: \<open>TransferState\<close>,
    \<open>validTransitions\<close>, the record \<open>Session\<close> with \<open>Transition\<close>, \<open>AdvanceChunk\<close>, \<open>Fail\<close>, and \<open>Run\<close>, which
    calls the step of the current state until the session is finished or fails. The \<^verbatim>\<open>Stream\<close>
    interface has no code; its methods are requests of theory \<open>Go_IO\<close>.
  \<^item> \<^verbatim>\<open>src/Utils\<close> (hash, encryption, commitment) is theory \<open>Utils\<close> over theory \<open>AES_GCM\<close>, a model of AES-GCM of
    Go's standard library. Keccak-256, a third-party package, is the parameter \<open>H\<close> of type \<open>digest\<close>.
  \<^item> \<^verbatim>\<open>src/Merkle\<close> is theory \<open>Merkle\<close>: the loops of \<^verbatim>\<open>BuildTree\<close> level by level, and a recursive reference.
  \<^item> \<^verbatim>\<open>src/Chunk\<close> (messages on the wire, chunks on disk) is theory \<open>Wire\<close>; each of the seven messages has its
    bytes, its sender and its reader.
  \<^item> \<^verbatim>\<open>src/Controllers\<close> is theory \<open>Controllers\<close>: the steps of both tables, \<open>SendFile\<close> and \<open>RecieveFile\<close>.
  \<^item> \<^verbatim>\<open>src/Server\<close> and \<^verbatim>\<open>src/Client\<close> are theories \<open>Server_Client\<close> (request header, stream handler, the client's
    stream, \<^verbatim>\<open>RELAY_ADDRS\<close>) and \<open>Programs\<close> (the two main functions).
  \<^item> \<^verbatim>\<open>src/P2P\<close> is theory \<open>P2P\<close>: identity file, relay addresses, host construction with its reservations,
    renewal of a reservation, connection kinds, the watcher for a direct connection.
  \<^item> \<^verbatim>\<open>src/relay\<close> is theory \<open>Relay\<close>, with Base64 of the standard library in theory \<open>Base64\<close>.

  \<^bold>\<open>How code becomes definitions.\<close> A Go function with effects is a value of type \<open>'a io\<close> (theory \<open>Go_IO\<close>): it
  returns, it stops the process (a panic, \<^verbatim>\<open>log.Fatal\<close>, \<^verbatim>\<open>os.Exit\<close>), or it makes a request and continues
  with the reply, so each call, each error branch and their order are those of the source; what is printed
  or logged is a request too, with its format and its arguments. Structs are
  records (a nil pointer is \<open>None\<close>), enumerations are datatypes, \<^verbatim>\<open>uint32\<close>, \<^verbatim>\<open>int64\<close> and bytes are words, an
  \<^verbatim>\<open>error\<close> result is the left summand of \<open>go_result\<close>. The two goroutines that run for long are functions
  of what they receive: the watcher of the cases its \<^verbatim>\<open>select\<close> takes (\<open>watch_input\<close>), the renewal loop of
  the rounds of its environment (\<open>renewal_round\<close>).

  \<^bold>\<open>How programs are read.\<close> \<open>exec\<close> lets an arbitrary environment choose the replies (only the documented
  promises \<open>reply_ok\<close> hold), so statements over it hold for any peer, disk, clock and random source;
  \<open>wph\<close> and the locale \<open>step_table\<close> (theory \<open>Protocol\<close>) prove such statements from an invariant of the
  steps, and are interpreted for the sender's and the receiver's table. Theory \<open>Duplex\<close> connects two
  programs by byte queues; its step relation has the diamond property (locale \<open>diamond\<close>), so one
  complete run decides every interleaving. The locale \<open>wire_message\<close> states the codec laws once for the
  seven messages; \<open>functional_refinement\<close> (theory \<open>Go_Prelude\<close>) carries a step-wise refinement to runs.
  Theory \<open>Exchange\<close> is the abstract protocol: messages, the stages of a \<open>conversation\<close> and what it means that
  it is fair. The locale \<open>endpoint_contract\<close> (theory \<open>Conformance\<close>) is what a program promises as one end of
  such a conversation; it is interpreted on \<open>SendFile\<close> and on \<open>RecieveFile\<close>.

  \<^bold>\<open>What the lemmas show.\<close>

  \<^item> Theories \<open>Sender\<close> and \<open>Receiver\<close>, for any environment: the key of a chunk is revealed only after its
    ticket; a block is stored, and a transfer acknowledged, only after the checks of the protocol; the
    exact conversation and file operations of a successful transfer; no panics; a bound on the calls.
  \<^item> Theory \<open>Conformance\<close>: both programs refine the abstract protocol. Each message is the next one of its
    role in a fair conversation whose two halves are the messages written and the bytes read; a run that
    is cut off leaves a fair conversation, a successful one a closed conversation.
  \<^item> Theories \<open>Fail_Stop\<close> and \<open>Robustness\<close>: the first failed call ends a transfer, with its error wrapped in
    the result; at any moment the receiver's disk holds verified blocks in order and nothing else; which
    file handles are closed, and the one that is left open when a reception fails.
  \<^item> Theory \<open>Shared_Disk\<close>: any number of stream handlers at once on one disk, in any interleaving of their
    calls: transfers to different paths do not disturb each other.
  \<^item> Theory \<open>Reports\<close>: the log of a transfer reads back as the path of its state machine, with the right
    chunk numbers, and tells the final state and the error; both ends of a stream report a failure once
    and close the stream last, however they return.
  \<^item> Theory \<open>Session_Typing\<close>: a type discipline for sessions that both step tables respect.
  \<^item> Theory \<open>Chunking\<close>: chunk counts and the partition of the file, with the wrap-around of \<^verbatim>\<open>uint32\<close>.
  \<^item> Theory \<open>End_To_End\<close>: sender and receiver connected deliver the file in every interleaving; theory
    \<open>Integrity\<close>: when both have finished over any network and the root arrived unchanged, the received file
    is the sent one, or a digest collision is exhibited.
  \<^item> Theories \<open>Server_Client\<close> and \<open>Programs\<close>: the request reaches the right transfer; the buffers a peer can ask for; \<^verbatim>\<open>GET\<close> and \<^verbatim>\<open>POST\<close> deliver,
    also from the client's command line on; what the server announces; what must have succeeded before
    the client uses the stream.
  \<^item> Theories \<open>P2P\<close> and \<open>Relay\<close>: the reservations of a host and their renewal in time; the watcher
    implements an abstract machine; identities survive restarts and moves.
  \<^item> Theories \<open>Scenario\<close> and \<open>Scenario_Programs\<close>: concrete runs at which the properties are instantiated.

  \<^bold>\<open>Fuel.\<close> \<open>Run\<close> is an unbounded loop in the source and takes fuel here; running out is a result of its own
  (\<open>OutOfFuel\<close>). The rank of the sender drops by one per step and starts below 4 per chunk plus 4, that of
  the receiver below 5 per chunk plus 4, with the chunk count below \<open>2 ^ 32\<close>, so that much fuel is never used
  up: the termination properties say so for any environment. All other recursions are structural or have
  a termination proof.

  \<^bold>\<open>Not modelled.\<close> The libp2p library (a parameter with named laws, or the answerer of requests), the digest
  Keccak-256 (only its length is assumed, where needed), the session's mutex (a session belongs to one
  goroutine), contexts other than as errors of the calls they end, the text \<^verbatim>\<open>fmt\<close> makes of a format and
  its arguments and the time stamps of \<^verbatim>\<open>log\<close>, offsets in Base64 errors, the Unicode case tables, and the
  commented-out earlier versions in \<^verbatim>\<open>src/Chunk/chunk.go\<close> and \<^verbatim>\<open>src/Controllers/controllers.go\<close>. In \<open>Duplex\<close> the stream is reliable and ordered, as
  the library documents; broken streams are the subject of the statements over \<open>exec\<close>. In \<open>Shared_Disk\<close> files are known by the
  text of their path, and nothing is said of a file that two streams create.
\<close>

end
